theory Spec2Isabelle
  imports Complex_Main "HOL-Library.AList"
begin

section \<open>JavaScript strings\<close>

text \<open>
  A JavaScript string is a sequence of UTF-16 code units. The detector's patterns carry no
  \<open>u\<close> flag, so they work on code units too. A code unit is a natural number below
  \<open>65536\<close>; no arithmetic is done on them beyond ASCII case conversion.
\<close>

type_synonym cu = nat
type_synonym jsstring = "cu list"

definition js :: "string \<Rightarrow> jsstring" where
  "js s = map of_char s"

definition is_digit :: "cu \<Rightarrow> bool" where
  "is_digit c = (48 \<le> c \<and> c \<le> 57)"

definition is_upper :: "cu \<Rightarrow> bool" where
  "is_upper c = (65 \<le> c \<and> c \<le> 90)"

definition is_lower :: "cu \<Rightarrow> bool" where
  "is_lower c = (97 \<le> c \<and> c \<le> 122)"

definition is_alnum :: "cu \<Rightarrow> bool" where
  "is_alnum c = (is_digit c \<or> is_upper c \<or> is_lower c)"

text \<open>The class \<open>\w\<close>, which also decides \<open>\b\<close>.\<close>

definition is_word :: "cu \<Rightarrow> bool" where
  "is_word c = (is_alnum c \<or> c = 95)"

text \<open>The class \<open>\s\<close>: WhiteSpace and LineTerminator, which is also what \<open>trim\<close> strips.\<close>

definition is_space :: "cu \<Rightarrow> bool" where
  "is_space c = (c \<in> set [9, 10, 11, 12, 13, 32, 160, 0x1680, 0x2028, 0x2029, 0x202F,
       0x205F, 0x3000, 0xFEFF] \<or> (0x2000 \<le> c \<and> c \<le> 0x200A))"

definition lower_ascii :: "cu \<Rightarrow> cu" where
  "lower_ascii c = (if is_upper c then c + 32 else c)"

definition swapcase :: "cu \<Rightarrow> cu" where
  "swapcase c = (if is_upper c then c + 32 else if is_lower c then c - 32 else c)"

text \<open>
  \<open>String.prototype.toLowerCase\<close>. On a string of ASCII code units it lowers \<open>A-Z\<close> and
  keeps the rest; on any other string the result is given by the Unicode case tables of
  the runtime, which are the parameter \<open>U\<close>.
\<close>

definition toLowerCase :: "(jsstring \<Rightarrow> jsstring) \<Rightarrow> jsstring \<Rightarrow> jsstring" where
  "toLowerCase U s = (if list_all (\<lambda>c. c < 128) s then map lower_ascii s else U s)"

definition toUpperCase_ascii :: "cu \<Rightarrow> cu" where
  "toUpperCase_ascii c = (if is_lower c then c - 32 else c)"

definition trim :: "jsstring \<Rightarrow> jsstring" where
  "trim s = rev (dropWhile is_space (rev (dropWhile is_space s)))"

section \<open>Regular expressions, as the engine runs them\<close>

text \<open>
  A backtracking matcher: \<open>rmatch r st\<close> lists the states reachable by matching \<open>r\<close> from
  \<open>st\<close>, in the order in which a backtracking engine tries them, so the head of the list
  is the match \<open>exec\<close> reports. A state is the consumed input (reversed), the remaining
  input and the capture groups set so far.
\<close>

datatype re =
    Eps
  | Sym "cu \<Rightarrow> bool"
  | Seq re re
  | Alt re re
  | Star re
  | Grp nat re
  | Bol
  | Wb
  | Ahead re
  | NotAhead re

type_synonym mstate = "jsstring \<times> jsstring \<times> (nat \<times> jsstring) list"

definition st_rest :: "mstate \<Rightarrow> jsstring" where
  "st_rest st = fst (snd st)"

definition at_boundary :: "jsstring \<Rightarrow> jsstring \<Rightarrow> bool" where
  "at_boundary prev rest =
     ((case prev of [] \<Rightarrow> False | c # _ \<Rightarrow> is_word c) \<noteq>
      (case rest of [] \<Rightarrow> False | c # _ \<Rightarrow> is_word c))"

definition set_group :: "nat \<Rightarrow> mstate \<Rightarrow> mstate \<Rightarrow> mstate" where
  "set_group n st st' =
     (case st' of (b', r', g') \<Rightarrow>
        (b', r', AList.update n (take (length (st_rest st) - length r') (st_rest st)) g'))"

function rmatch :: "re \<Rightarrow> mstate \<Rightarrow> mstate list" where
  "rmatch Eps st = [st]"
| "rmatch (Sym p) (b, [], g) = []"
| "rmatch (Sym p) (b, c # cs, g) = (if p c then [(c # b, cs, g)] else [])"
| "rmatch (Seq r1 r2) st = concat (map (rmatch r2) (rmatch r1 st))"
| "rmatch (Alt r1 r2) st = rmatch r1 st @ rmatch r2 st"
| "rmatch (Star r) st =
     concat (map (rmatch (Star r))
       (filter (\<lambda>st'. length (st_rest st') < length (st_rest st)) (rmatch r st))) @ [st]"
| "rmatch (Grp n r) st = map (set_group n st) (rmatch r st)"
| "rmatch Bol (b, cs, g) = (if b = [] then [(b, cs, g)] else [])"
| "rmatch Wb (b, cs, g) = (if at_boundary b cs then [(b, cs, g)] else [])"
| "rmatch (Ahead r) st = (if rmatch r st = [] then [] else [st])"
| "rmatch (NotAhead r) st = (if rmatch r st = [] then [st] else [])"
  by pat_completeness auto
termination
  by (relation "measures [\<lambda>(r, st). size r, \<lambda>(r, st). length (st_rest st)]") auto

text \<open>Derived forms: \<open>r?\<close>, \<open>r+\<close>, \<open>r{m,n}\<close> (all greedy), sequences and literals.\<close>

definition Opt :: "re \<Rightarrow> re" where
  "Opt r = Alt r Eps"

definition Plus :: "re \<Rightarrow> re" where
  "Plus r = Seq r (Star r)"

text \<open>\<open>r{1,4}\<close>\<close>

definition Rep_1_4 :: "re \<Rightarrow> re" where
  "Rep_1_4 r = Seq r (Opt (Seq r (Opt (Seq r (Opt r)))))"

definition seqs :: "re list \<Rightarrow> re" where
  "seqs rs = foldr Seq rs Eps"

definition chr :: "cu \<Rightarrow> re" where
  "chr c = Sym (\<lambda>x. x = c)"

definition lit :: "jsstring \<Rightarrow> re" where
  "lit s = seqs (map chr s)"

text \<open>
  Under the \<open>i\<close> flag a code unit matches a class when its canonical form is the
  canonical form of a member. For the classes used here (ASCII letters and digits, and
  code units without case) that is: the code unit or its ASCII case swap is a member.
\<close>

definition Sym_i :: "(cu \<Rightarrow> bool) \<Rightarrow> re" where
  "Sym_i p = Sym (\<lambda>x. p x \<or> p (swapcase x))"

definition NotSym_i :: "(cu \<Rightarrow> bool) \<Rightarrow> re" where
  "NotSym_i p = Sym (\<lambda>x. \<not> (p x \<or> p (swapcase x)))"

definition lit_i :: "jsstring \<Rightarrow> re" where
  "lit_i s = seqs (map (\<lambda>c. Sym_i (\<lambda>x. x = c)) s)"

text \<open>
  \<open>search\<close> tries the pattern at each position from the current one on, as \<open>exec\<close> and
  \<open>test\<close> do; the result is the input before the match (reversed) and the state at the
  end of the match.
\<close>

fun search :: "re \<Rightarrow> jsstring \<Rightarrow> jsstring \<Rightarrow> (jsstring \<times> mstate) option" where
  "search r b [] = (case rmatch r (b, [], []) of [] \<Rightarrow> None | st # _ \<Rightarrow> Some (b, st))"
| "search r b (c # cs) =
     (case rmatch r (b, c # cs, []) of
        [] \<Rightarrow> search r (c # b) cs
      | st # _ \<Rightarrow> Some (b, st))"

definition re_test :: "re \<Rightarrow> jsstring \<Rightarrow> bool" where
  "re_test r s = (search r [] s \<noteq> None)"

definition re_exec :: "re \<Rightarrow> jsstring \<Rightarrow> (nat \<times> jsstring) list option" where
  "re_exec r s = (case search r [] s of None \<Rightarrow> None | Some (b, (b', rest, g)) \<Rightarrow> Some g)"

definition group :: "(nat \<times> jsstring) list \<Rightarrow> nat \<Rightarrow> jsstring option" where
  "group g n = map_of g n"

text \<open>\<open>s.replace(r, rep)\<close> for a pattern without the \<open>g\<close> flag: the first match only.\<close>

definition replace_first :: "re \<Rightarrow> jsstring \<Rightarrow> jsstring \<Rightarrow> jsstring" where
  "replace_first r rep s =
     (case search r [] s of
        None \<Rightarrow> s
      | Some (b, (b', rest, g)) \<Rightarrow> rev b @ rep @ rest)"

text \<open>
  \<open>s.replace(r, rep)\<close> for a pattern with the \<open>g\<close> flag: every match, left to right; after
  an empty match the next code unit is copied and the scan moves on.
\<close>

function replace_all :: "re \<Rightarrow> jsstring \<Rightarrow> jsstring \<Rightarrow> jsstring \<Rightarrow> jsstring" where
  "replace_all r rep b rest =
     (case rmatch r (b, rest, []) of
        [] \<Rightarrow> (case rest of [] \<Rightarrow> [] | c # cs \<Rightarrow> c # replace_all r rep (c # b) cs)
      | st # _ \<Rightarrow>
          (if length (st_rest st) < length rest
           then rep @ replace_all r rep (fst st) (st_rest st)
           else (case rest of [] \<Rightarrow> rep | c # cs \<Rightarrow> rep @ c # replace_all r rep (c # b) cs)))"
  by pat_completeness auto
termination
  by (relation "measure (\<lambda>(r, rep, b, rest). length rest)") auto

section \<open>The identifier normalizer\<close>

text \<open>\<open>DASH_CLASS\<close>: the hyphen variants U+2010 to U+2015 and the ASCII hyphen.\<close>

definition DASH_CLASS :: "cu list" where
  "DASH_CLASS = [0x2010, 0x2011, 0x2012, 0x2013, 0x2014, 0x2015, 45]"

definition REDACTED :: jsstring where
  "REDACTED = [0x2588, 0x2588, 0x2588, 0x2588]"

definition unifyDashes :: "jsstring \<Rightarrow> jsstring" where
  "unifyDashes text =
     (if text = [] then text
      else replace_all (Sym (\<lambda>c. c \<in> set DASH_CLASS)) (js ''-'') [] text)"

datatype kind = scp | scp_variant | proposal_or_article

record ident =
  ident_id :: jsstring
  ident_kind :: kind

text \<open>\<open>/\s*-\s*/g\<close>\<close>

definition RE_SPACED_HYPHEN :: re where
  "RE_SPACED_HYPHEN = seqs [Star (Sym is_space), chr 45, Star (Sym is_space)]"

text \<open>\<open>/^(?:SCP)\s*-?\s*((?:[0-9]{1,4})|(?:XXXX))(?:-([0-9A-Za-z]+))?/i\<close>, where \<open>XXXX\<close> stands
  for the redaction token, four code units U+2588.\<close>

definition RE_IDENT :: re where
  "RE_IDENT = seqs [Bol, lit_i (js ''SCP''), Star (Sym is_space), Opt (chr 45),
     Star (Sym is_space),
     Grp 1 (Alt (Rep_1_4 (Sym_i is_digit)) (lit_i REDACTED)),
     Opt (Seq (chr 45) (Grp 2 (Plus (Sym_i is_alnum))))]"

text \<open>\<open>/^0+(?=\d)/\<close>\<close>

definition RE_LEADING_ZEROS :: re where
  "RE_LEADING_ZEROS = seqs [Bol, Plus (chr 48), Ahead (Sym is_digit)]"

text \<open>\<open>/^scp-/\<close>\<close>

definition RE_SCP_PREFIX :: re where
  "RE_SCP_PREFIX = seqs [Bol, lit (js ''scp-'')]"

text \<open>\<open>/^(?:scp-)?001\b/i\<close>\<close>

definition RE_001 :: re where
  "RE_001 = seqs [Bol, Opt (lit_i (js ''scp-'')), lit_i (js ''001''), Wb]"

text \<open>\<open>/-(?:j|ex|arc|d)\b/\<close>\<close>

definition RE_VARIANT :: re where
  "RE_VARIANT = seqs [chr 45,
     Alt (lit (js ''j'')) (Alt (lit (js ''ex'')) (Alt (lit (js ''arc'')) (lit (js ''d'')))), Wb]"

definition normalizeIdentifier :: "(jsstring \<Rightarrow> jsstring) \<Rightarrow> jsstring \<Rightarrow> ident option" where
  "normalizeIdentifier U raw =
     (if raw = [] then None
      else
        let s = trim raw;
            s = unifyDashes s;
            s = replace_all RE_SPACED_HYPHEN (js ''-'') [] s
        in case re_exec RE_IDENT s of
             None \<Rightarrow> None
           | Some m \<Rightarrow>
               (case group m 1 of
                  None \<Rightarrow> None
                | Some base \<Rightarrow>
                    let rest = (case group m 2 of None \<Rightarrow> [] | Some x \<Rightarrow> x);
                        stripped = replace_first RE_LEADING_ZEROS [] base;
                        id0 = (if base = REDACTED then js ''scp-unknown''
                               else js ''scp-'' @ (if stripped = [] then js ''0'' else stripped));
                        id1 = (if rest \<noteq> [] then id0 @ js ''-'' @ toLowerCase U rest else id0);
                        kind0 = scp;
                        kind1 = (if re_test RE_001 (replace_first RE_SCP_PREFIX (js ''scp-'') id1)
                                 then proposal_or_article else kind0);
                        kind2 = (if re_test RE_VARIANT id1 then scp_variant else kind1)
                    in Some \<lparr>ident_id = id1, ident_kind = kind2\<rparr>))"

section \<open>The page classifier\<close>

record url =
  url_hostname :: jsstring
  url_pathname :: jsstring
  url_href :: jsstring

record domain_entry =
  entry_site :: jsstring
  entry_locale :: jsstring

definition DEFAULT_DOMAIN_MAP :: "(jsstring \<times> domain_entry) list" where
  "DEFAULT_DOMAIN_MAP =
     [(js ''scp-wiki.wikidot.com'', \<lparr>entry_site = js ''scp-wiki'', entry_locale = js ''en''\<rparr>),
      (js ''www.scp-wiki.wikidot.com'', \<lparr>entry_site = js ''scp-wiki'', entry_locale = js ''en''\<rparr>),
      (js ''scpwiki.com'', \<lparr>entry_site = js ''scp-wiki'', entry_locale = js ''en''\<rparr>),
      (js ''www.scpwiki.com'', \<lparr>entry_site = js ''scp-wiki'', entry_locale = js ''en''\<rparr>),
      (js ''scp-wiki-cn.wikidot.com'', \<lparr>entry_site = js ''scp-wiki'', entry_locale = js ''zh-cn''\<rparr>),
      (js ''scp-ru.wikidot.com'', \<lparr>entry_site = js ''scp-wiki'', entry_locale = js ''ru''\<rparr>),
      (js ''scpko.wikidot.com'', \<lparr>entry_site = js ''scp-wiki'', entry_locale = js ''ko''\<rparr>),
      (js ''scp-th.wikidot.com'', \<lparr>entry_site = js ''scp-wiki'', entry_locale = js ''th''\<rparr>),
      (js ''scp-pl.wikidot.com'', \<lparr>entry_site = js ''scp-wiki'', entry_locale = js ''pl''\<rparr>),
      (js ''scp-jp.wikidot.com'', \<lparr>entry_site = js ''scp-wiki'', entry_locale = js ''ja''\<rparr>),
      (js ''scp-es.com'', \<lparr>entry_site = js ''scp-wiki'', entry_locale = js ''es''\<rparr>)]"

datatype page_type =
  scp_article | proposal_or_index | series | hub | tale | non_scp | unknown

text \<open>
  The confidence of a page is one of the decimal literals of the source; it is kept as
  the rational number the literal denotes.
\<close>

record page =
  page_type :: page_type
  page_site :: jsstring
  page_locale :: jsstring
  canonicalUrl :: jsstring
  page_confidence :: rat

text \<open>\<open>/\/(?:scp-)?\d{1,4}(?:-[a-z0-9]+)*/\<close>\<close>

definition RE_SCP_PATH :: re where
  "RE_SCP_PATH = seqs [chr 47, Opt (lit (js ''scp-'')), Rep_1_4 (Sym is_digit),
     Star (Seq (chr 45) (Plus (Sym (\<lambda>c. is_lower c \<or> is_digit c))))]"

text \<open>\<open>/\/scp-?001(?!\d)/\<close>\<close>

definition RE_SCP001_PATH :: re where
  "RE_SCP001_PATH = seqs [chr 47, lit (js ''scp''), Opt (chr 45), lit (js ''001''),
     NotAhead (Sym is_digit)]"

text \<open>\<open>/\bscp-\d{1,4}\b/\<close>\<close>

definition RE_TITLE_ARTICLE :: re where
  "RE_TITLE_ARTICLE = seqs [Wb, lit (js ''scp-''), Rep_1_4 (Sym is_digit), Wb]"

text \<open>\<open>/\bseries\b/\<close> and \<open>/series [ivx]+/i\<close>\<close>

definition RE_SERIES_PATH :: re where
  "RE_SERIES_PATH = seqs [Wb, lit (js ''series''), Wb]"

definition RE_SERIES_TITLE :: re where
  "RE_SERIES_TITLE = seqs [lit_i (js ''series ''), Plus (Sym_i (\<lambda>c. c \<in> set (js ''ivx'')))]"

text \<open>\<open>/\bhub\b/\<close> and \<open>/hub/i\<close>\<close>

definition RE_HUB_PATH :: re where
  "RE_HUB_PATH = seqs [Wb, lit (js ''hub''), Wb]"

definition RE_HUB_TITLE :: re where
  "RE_HUB_TITLE = lit_i (js ''hub'')"

text \<open>\<open>/\btale\b/\<close> and \<open>/tale/i\<close>\<close>

definition RE_TALE_PATH :: re where
  "RE_TALE_PATH = seqs [Wb, lit (js ''tale''), Wb]"

definition RE_TALE_TITLE :: re where
  "RE_TALE_TITLE = lit_i (js ''tale'')"

text \<open>
  The site mapping reads \<open>DEFAULT_CONFIG.domainMap[hostname]?.site || 'unknown'\<close>: the
  default table, with \<open>unknown\<close> for a missing entry and for an empty field. (A hostname
  that names a property of \<open>Object.prototype\<close> finds an object without \<open>site\<close> and
  \<open>locale\<close>, which gives \<open>unknown\<close> as a missing entry does.)
\<close>

definition site_of :: "jsstring \<Rightarrow> jsstring" where
  "site_of h =
     (case map_of DEFAULT_DOMAIN_MAP h of
        None \<Rightarrow> js ''unknown''
      | Some e \<Rightarrow> (if entry_site e = [] then js ''unknown'' else entry_site e))"

definition locale_of :: "jsstring \<Rightarrow> jsstring" where
  "locale_of h =
     (case map_of DEFAULT_DOMAIN_MAP h of
        None \<Rightarrow> js ''unknown''
      | Some e \<Rightarrow> (if entry_locale e = [] then js ''unknown'' else entry_locale e))"

text \<open>
  \<open>classifyPage(urlObj, documentTitle)\<close>. A missing \<open>urlObj\<close> is \<open>None\<close>; a missing
  title is the empty string, as \<open>documentTitle || ''\<close> makes it.
\<close>

definition classifyPage :: "(jsstring \<Rightarrow> jsstring) \<Rightarrow> url option \<Rightarrow> jsstring \<Rightarrow> page" where
  "classifyPage U urlObj documentTitle =
     (let u = (case urlObj of
                 None \<Rightarrow> \<lparr>url_hostname = [], url_pathname = js ''/'', url_href = []\<rparr>
               | Some x \<Rightarrow> x);
          hostname = toLowerCase U (url_hostname u);
          pathname = toLowerCase U (if url_pathname u = [] then js ''/'' else url_pathname u);
          site = site_of hostname;
          loc = locale_of hostname;
          title = toLowerCase U documentTitle;
          isSCPPath = re_test RE_SCP_PATH pathname;
          isSCP001 = re_test RE_SCP001_PATH pathname;
          looksLikeArticle = (isSCPPath \<or> re_test RE_TITLE_ARTICLE title);
          tc =
            (if isSCP001 then (proposal_or_index, 0.6)
             else if looksLikeArticle then (scp_article, if isSCPPath then 0.9 else 0.6)
             else if re_test RE_SERIES_PATH pathname \<or> re_test RE_SERIES_TITLE title
               then (series, 0.6)
             else if re_test RE_HUB_PATH pathname \<or> re_test RE_HUB_TITLE title
               then (hub, 0.5)
             else if re_test RE_TALE_PATH pathname \<or> re_test RE_TALE_TITLE title
               then (tale, 0.4)
             else (if site = js ''scp-wiki'' then non_scp else unknown,
                   if site = js ''scp-wiki'' then 0.3 else 0.1))
      in \<lparr>page_type = fst tc, page_site = site, page_locale = loc,
           canonicalUrl = url_href u, page_confidence = snd tc\<rparr>)"

section \<open>Entities and deduplication\<close>

datatype "context" = link | inline

datatype confidence = high | medium | low

text \<open>\<open>ent_element\<close> is the identity of the DOM node the mention came from.\<close>

record entity =
  ent_id :: jsstring
  ent_kind :: kind
  ent_context :: "context"
  ent_url :: "jsstring option"
  ent_displayText :: "jsstring option"
  ent_element :: "nat option"
  ent_confidence :: confidence

text \<open>\<open>x || null\<close> on a string that may be missing: the empty string is falsy.\<close>

definition or_null :: "jsstring option \<Rightarrow> jsstring option" where
  "or_null x = (case x of None \<Rightarrow> None | Some s \<Rightarrow> (if s = [] then None else Some s))"

definition makeEntity ::
  "jsstring \<Rightarrow> kind \<Rightarrow> context \<Rightarrow> jsstring option \<Rightarrow> jsstring option \<Rightarrow> nat option \<Rightarrow> confidence
     \<Rightarrow> entity" where
  "makeEntity i k c u t el conf =
     \<lparr>ent_id = i, ent_kind = k, ent_context = c, ent_url = or_null u,
      ent_displayText = or_null t, ent_element = el, ent_confidence = conf\<rparr>"

definition scoreEntity :: "entity \<Rightarrow> nat" where
  "scoreEntity e =
     (if ent_confidence e = high then 3 else 0) +
     (if ent_confidence e = medium then 2 else 0) +
     (if ent_confidence e = low then 1 else 0) +
     (if ent_context e = link then 1 else 0)"

text \<open>The key \<open>`${e.id}|${e.url || ''}`\<close>.\<close>

definition entity_key :: "entity \<Rightarrow> jsstring" where
  "entity_key e = ent_id e @ js ''|'' @ (case or_null (ent_url e) of None \<Rightarrow> [] | Some u \<Rightarrow> u)"

text \<open>
  The \<open>Map\<close> of the source is an association list in insertion order: \<open>set\<close> on a key
  that is present replaces the value in place, on a new key it appends.
\<close>

fun dedupe_loop :: "(jsstring \<times> entity) list \<Rightarrow> entity list \<Rightarrow> (jsstring \<times> entity) list" where
  "dedupe_loop byKey [] = byKey"
| "dedupe_loop byKey (e # es) =
     (case map_of byKey (entity_key e) of
        None \<Rightarrow> dedupe_loop (AList.update (entity_key e) e byKey) es
      | Some existing \<Rightarrow>
          (if scoreEntity e > scoreEntity existing
           then dedupe_loop (AList.update (entity_key e) e byKey) es
           else dedupe_loop byKey es))"

definition dedupeEntities :: "entity list \<Rightarrow> entity list" where
  "dedupeEntities entities = map snd (dedupe_loop [] entities)"

section \<open>The document and the scanners\<close>

datatype exn = Thrown nat

record element =
  el_node :: nat
  el_matches :: "jsstring \<Rightarrow> bool"
  el_href :: "jsstring option"
  el_textContent :: jsstring

text \<open>
  The document as the detector sees it. \<open>querySelectorAll\<close> can throw (a selector that
  does not parse is a \<open>SyntaxError\<close>).
\<close>

record document =
  doc_title :: jsstring
  doc_href :: jsstring
  doc_body :: bool
  querySelectorAll :: "jsstring \<Rightarrow> exn + element list"

text \<open>
  What the JavaScript runtime supplies: the Unicode case tables behind \<open>toLowerCase\<close>
  and \<open>toUpperCase\<close>, \<open>new URL(href, base)\<close> (\<open>None\<close> when it throws), whether
  \<open>MutationObserver\<close> exists and whether its \<open>observe\<close> throws, and what each
  subscribed callback does when it is called: it returns, or it throws.
\<close>

record runtime =
  rt_lower :: "jsstring \<Rightarrow> jsstring"
  rt_upper :: "jsstring \<Rightarrow> jsstring"
  rt_URL :: "jsstring \<Rightarrow> jsstring \<Rightarrow> url option"
  rt_MutationObserver :: bool
  rt_observe_throws :: bool
  rt_callback :: "nat \<Rightarrow> nat \<Rightarrow> exn option"

definition toUpperCase :: "(jsstring \<Rightarrow> jsstring) \<Rightarrow> jsstring \<Rightarrow> jsstring" where
  "toUpperCase V s = (if list_all (\<lambda>c. c < 128) s then map toUpperCase_ascii s else V s)"

definition safeURL :: "runtime \<Rightarrow> jsstring \<Rightarrow> jsstring \<Rightarrow> url option" where
  "safeURL R h base = rt_URL R h base"

definition DEFAULT_EXCLUDE_SELECTOR :: jsstring where
  "DEFAULT_EXCLUDE_SELECTOR =
     js ''script,style,pre,code,textarea,input,select,button,[contenteditable=\"true\"],[data-scp-detector-exclude]''"

definition DEFAULT_INCLUDE_SELECTOR :: jsstring where
  "DEFAULT_INCLUDE_SELECTOR =
     js ''a[href],p,li,span,div,h1,h2,h3,h4,h5,h6,blockquote,strong,em,small,figcaption,caption,td,th''"

definition elementExcluded :: "element \<Rightarrow> jsstring \<Rightarrow> bool" where
  "elementExcluded el excludeSelectors = el_matches el excludeSelectors"

text \<open>\<open>/(?:^|\/)scp-([0-9]{1,4}(?:-[0-9a-z]+)*)\b/\<close>\<close>

definition RE_LINK_PATH :: re where
  "RE_LINK_PATH = seqs [Alt Bol (chr 47), lit (js ''scp-''),
     Grp 1 (Seq (Rep_1_4 (Sym is_digit))
       (Star (Seq (chr 45) (Plus (Sym (\<lambda>c. is_digit c \<or> is_lower c)))))), Wb]"

text \<open>The identifier a link's path encodes, if any.\<close>

definition path_ident :: "(jsstring \<Rightarrow> jsstring) \<Rightarrow> jsstring \<Rightarrow> ident option" where
  "path_ident U path =
     (case re_exec RE_LINK_PATH path of
        None \<Rightarrow> None
      | Some m \<Rightarrow>
          (case group m 1 of
             None \<Rightarrow> None
           | Some numPart \<Rightarrow> normalizeIdentifier U (js ''SCP-'' @ numPart)))"

text \<open>One turn of the loop of \<open>scanLinks\<close>: the candidates (none or one) of an anchor.\<close>

definition scan_anchor :: "runtime \<Rightarrow> jsstring \<Rightarrow> element \<Rightarrow> entity list" where
  "scan_anchor R baseHref a =
     (if elementExcluded a DEFAULT_EXCLUDE_SELECTOR then []
      else case or_null (el_href a) of
        None \<Rightarrow> []
      | Some h \<Rightarrow>
          (case safeURL R h baseHref of
             None \<Rightarrow> []
           | Some urlObj \<Rightarrow>
               (case path_ident (rt_lower R)
                        (unifyDashes (toLowerCase (rt_lower R) (url_pathname urlObj))) of
                  Some nm \<Rightarrow>
                    [makeEntity (ident_id nm) (ident_kind nm) link (Some (url_href urlObj))
                       (Some (trim (el_textContent a))) (Some (el_node a)) high]
                | None \<Rightarrow>
                    (let text = trim (el_textContent a)
                     in if text = [] then []
                        else case normalizeIdentifier (rt_lower R)
                                    (toUpperCase (rt_upper R) text) of
                          None \<Rightarrow> []
                        | Some textNorm \<Rightarrow>
                            [makeEntity (ident_id textNorm) (ident_kind textNorm) link
                               (Some (url_href urlObj)) (Some text) (Some (el_node a)) medium]))))"

definition scanLinks :: "runtime \<Rightarrow> document \<Rightarrow> jsstring \<Rightarrow> exn + entity list" where
  "scanLinks R doc baseHref =
     (case querySelectorAll doc (js ''a[href]'') of
        Inl e \<Rightarrow> Inl e
      | Inr anchors \<Rightarrow> Inr (concat (map (scan_anchor R baseHref) anchors)))"

text \<open>\<open>ID_INLINE_REGEX\<close>:
  \<open>(?:^|[^A-Z0-9])((?:SCP)[ D]*((?:[0-9]{1,4})|(?:XXXX))(?:-[0-9A-Za-z]+)*)\<close> with the flags
  \<open>gi\<close>, where \<open>D\<close> stands for the code units of \<open>DASH_CLASS\<close> and \<open>XXXX\<close> for the
  redaction token.\<close>

definition ID_INLINE_REGEX :: re where
  "ID_INLINE_REGEX = seqs [Alt Bol (NotSym_i (\<lambda>c. is_upper c \<or> is_digit c)),
     Grp 1 (seqs [lit_i (js ''SCP''), Star (Sym_i (\<lambda>c. c = 32 \<or> c \<in> set DASH_CLASS)),
       Grp 2 (Alt (Rep_1_4 (Sym_i is_digit)) (lit_i REDACTED)),
       Star (Seq (chr 45) (Plus (Sym_i is_alnum)))])]"

text \<open>
  The loop \<open>while ((m = ID_INLINE_REGEX.exec(text)) && safety++ < 20)\<close>. The first
  argument is how many turns \<open>safety\<close> still allows; each \<open>exec\<close> resumes where the last
  match ended.
\<close>

fun inline_loop ::
  "(jsstring \<Rightarrow> jsstring) \<Rightarrow> element \<Rightarrow> nat \<Rightarrow> jsstring \<Rightarrow> jsstring \<Rightarrow> entity list" where
  "inline_loop U el 0 b rest = []"
| "inline_loop U el (Suc n) b rest =
     (case search ID_INLINE_REGEX b rest of
        None \<Rightarrow> []
      | Some (b0, (b', rest', g)) \<Rightarrow>
          (case group g 1 of
             None \<Rightarrow> inline_loop U el n b' rest'
           | Some candidate \<Rightarrow>
               (case normalizeIdentifier U candidate of
                  None \<Rightarrow> []
                | Some nm \<Rightarrow>
                    [makeEntity (ident_id nm) (ident_kind nm) inline None (Some candidate)
                       (Some (el_node el)) low])
               @ inline_loop U el n b' rest'))"

definition scan_node :: "runtime \<Rightarrow> element \<Rightarrow> entity list" where
  "scan_node R el =
     (if elementExcluded el DEFAULT_EXCLUDE_SELECTOR then []
      else let text = trim (el_textContent el)
           in if text = [] then [] else inline_loop (rt_lower R) el 20 [] text)"

definition scanInline :: "runtime \<Rightarrow> document \<Rightarrow> jsstring \<Rightarrow> nat \<Rightarrow> exn + entity list" where
  "scanInline R doc includeSelectors maxNodes =
     (case querySelectorAll doc includeSelectors of
        Inl e \<Rightarrow> Inl e
      | Inr nodes \<Rightarrow>
          Inr (concat (map (scan_node R) (take (min (length nodes) maxNodes) nodes))))"

section \<open>The event emitter\<close>

text \<open>
  A subscribed callback is known by its identity (a number); what it does when called is
  the runtime's \<open>rt_callback\<close>. The listeners of an event are a \<open>Set\<close>: a list without
  repetition, in insertion order.
\<close>

record emitter =
  listeners :: "(jsstring \<times> nat list) list"

definition listeners_of :: "emitter \<Rightarrow> jsstring \<Rightarrow> nat list" where
  "listeners_of E ev = (case map_of (listeners E) ev of None \<Rightarrow> [] | Some s \<Rightarrow> s)"

definition emitter_on :: "jsstring \<Rightarrow> nat \<Rightarrow> emitter \<Rightarrow> emitter" where
  "emitter_on ev cb E =
     (let s = listeners_of E ev
      in E\<lparr>listeners := AList.update ev (if cb \<in> set s then s else s @ [cb]) (listeners E)\<rparr>)"

definition emitter_off :: "jsstring \<Rightarrow> nat \<Rightarrow> emitter \<Rightarrow> emitter" where
  "emitter_off ev cb E =
     (case map_of (listeners E) ev of
        None \<Rightarrow> E
      | Some s \<Rightarrow> E\<lparr>listeners := AList.update ev (removeAll cb s) (listeners E)\<rparr>)"

definition emitter_removeAll :: "emitter \<Rightarrow> emitter" where
  "emitter_removeAll E = E\<lparr>listeners := []\<rparr>"

text \<open>
  The loop of \<open>emit\<close>: \<open>try { cb(payload); } catch (_) { }\<close> for each listener. The
  result is the exception that leaves the loop, if any, and the calls made.
\<close>

fun call_listeners ::
  "(nat \<Rightarrow> nat \<Rightarrow> exn option) \<Rightarrow> nat list \<Rightarrow> nat \<Rightarrow> exn option \<times> (nat \<times> nat) list" where
  "call_listeners f [] payload = (None, [])"
| "call_listeners f (cb # cbs) payload =
     (case f cb payload of
        None \<Rightarrow>
          (case call_listeners f cbs payload of (x, calls) \<Rightarrow> (x, (cb, payload) # calls))
      | Some e \<Rightarrow>
          (case call_listeners f cbs payload of (x, calls) \<Rightarrow> (x, (cb, payload) # calls)))"

definition emitter_emit ::
  "(nat \<Rightarrow> nat \<Rightarrow> exn option) \<Rightarrow> emitter \<Rightarrow> jsstring \<Rightarrow> nat \<Rightarrow> exn option \<times> (nat \<times> nat) list" where
  "emitter_emit f E ev payload =
     (case map_of (listeners E) ev of
        None \<Rightarrow> (None, [])
      | Some s \<Rightarrow> (if s = [] then (None, []) else call_listeners f s payload))"

section \<open>The detector\<close>

record config =
  observe :: bool
  debounceMs :: nat
  includeSelectors :: jsstring
  excludeSelectors :: jsstring
  domainMap :: "(jsstring \<times> domain_entry) list"
  allowedDomains :: "jsstring list option"
  strict :: bool
  maxNodes :: nat
  scanIframes :: bool
  allowAllDomains :: bool
  autostart :: bool
  cfg_window :: "jsstring option"
  cfg_document :: "document option"
  logger :: "(jsstring \<Rightarrow> exn option) option"
  errorHandler :: "(exn \<Rightarrow> jsstring \<Rightarrow> exn option) option"

text \<open>
  \<open>cfg_window\<close> is the \<open>location.href\<close> of the window the detector finds (\<open>None\<close> when the
  window or its location is missing), \<open>cfg_document\<close> the document it finds; \<open>logger\<close> is
  what \<open>logger.debug\<close> does on a message, \<open>errorHandler\<close> what
  \<open>errorHandler.handleError\<close> does on an error and an action: each returns, or throws.
  Without an injected logger the no-op logger is used; without an injected error handler
  the safe one, which swallows whatever its own logging throws.
\<close>

definition DEFAULT_CONFIG :: config where
  "DEFAULT_CONFIG =
     \<lparr>observe = True, debounceMs = 120, includeSelectors = DEFAULT_INCLUDE_SELECTOR,
      excludeSelectors = DEFAULT_EXCLUDE_SELECTOR, domainMap = DEFAULT_DOMAIN_MAP,
      allowedDomains = None, strict = False, maxNodes = 5000, scanIframes = False,
      allowAllDomains = True, autostart = True, cfg_window = None, cfg_document = None,
      logger = None, errorHandler = None\<rparr>"

definition logger_debug :: "(jsstring \<Rightarrow> exn option) option \<Rightarrow> jsstring \<Rightarrow> exn option" where
  "logger_debug lg msg = (case lg of None \<Rightarrow> None | Some dbg \<Rightarrow> dbg msg)"

definition handleError ::
  "(exn \<Rightarrow> jsstring \<Rightarrow> exn option) option \<Rightarrow> exn \<Rightarrow> jsstring \<Rightarrow> exn option" where
  "handleError eh e action = (case eh of None \<Rightarrow> None | Some h \<Rightarrow> h e action)"

definition isAllowedDomain :: "jsstring \<Rightarrow> config \<Rightarrow> bool" where
  "isAllowedDomain h c =
     (if h = [] then True
      else case allowedDomains c of
        None \<Rightarrow> allowAllDomains c
      | Some ds \<Rightarrow> (if length ds > 0 then h \<in> set ds else allowAllDomains c))"

text \<open>
  The objects the detector hands out or shares live in a store: an object is known by its
  address, and two references to one address see each other's writes. An array holds the
  addresses of its elements.
\<close>

type_synonym ref = nat

datatype obj =
    OPage page
  | OArray "ref list"
  | OEntity entity
  | OResults ref ref nat

text \<open>
  The closure of \<open>createDetector\<close>: the configuration; the constants \<open>w\<close>, \<open>d\<close>, \<open>logger\<close>
  and \<open>errorHandler\<close>, which are bound when the detector is created and which a later
  \<open>configure\<close> does not change; \<open>disposed\<close>; \<open>observer\<close> (\<open>None\<close> is \<open>null\<close>; otherwise
  whether the observer is attached to the document); the pending debounce timer; the
  pending autostart microtask; the emitter and \<open>state\<close>. The fields \<open>emitted\<close> and
  \<open>handled\<close> record the calls made to subscribed callbacks and to the error handler.
\<close>

record detector =
  cfg :: config
  det_w :: "jsstring option"
  det_d :: "document option"
  det_logger :: "(jsstring \<Rightarrow> exn option) option"
  det_errorHandler :: "(exn \<Rightarrow> jsstring \<Rightarrow> exn option) option"
  disposed :: bool
  observer :: "bool option"
  timer :: bool
  microtask :: bool
  emitter :: emitter
  state_page :: ref
  state_entities :: ref
  state_lastUpdatedAt :: nat
  heap :: "obj list"
  emitted :: "(nat \<times> ref) list"
  handled :: "(exn \<times> jsstring) list"

text \<open>\<open>Object.assign({}, state.page)\<close> and \<open>state.entities.slice()\<close>: a new object with the
  same fields, a new array with the same elements.\<close>

definition getPageClassification :: "detector \<Rightarrow> ref \<times> detector" where
  "getPageClassification D = (length (heap D), D\<lparr>heap := heap D @ [heap D ! state_page D]\<rparr>)"

definition getEntities :: "detector \<Rightarrow> ref \<times> detector" where
  "getEntities D = (length (heap D), D\<lparr>heap := heap D @ [heap D ! state_entities D]\<rparr>)"

definition getResults :: "detector \<Rightarrow> ref \<times> detector" where
  "getResults D =
     (case getPageClassification D of (p, D1) \<Rightarrow>
        (case getEntities D1 of (es, D2) \<Rightarrow>
           (length (heap D2),
            D2\<lparr>heap := heap D2 @ [OResults p es (state_lastUpdatedAt D2)]\<rparr>)))"

text \<open>\<open>emitter.emit('update', getResults())\<close>\<close>

definition emit_update :: "runtime \<Rightarrow> detector \<Rightarrow> exn option \<times> detector" where
  "emit_update R D =
     (case getResults D of (payload, D1) \<Rightarrow>
        (case emitter_emit (rt_callback R) (emitter D1) (js ''update'') payload of
           (x, calls) \<Rightarrow> (x, D1\<lparr>emitted := emitted D1 @ calls\<rparr>)))"

text \<open>
  The three assignments to \<open>state\<close>. The page, the entities and their array become
  objects of the store here: until then nothing outside \<open>compute\<close> holds a reference to
  them.
\<close>

definition set_state :: "page \<Rightarrow> entity list \<Rightarrow> nat \<Rightarrow> detector \<Rightarrow> detector" where
  "set_state pg ents now D =
     (let n = length (heap D)
      in D\<lparr>state_page := n,
           state_entities := n + 1 + length ents,
           state_lastUpdatedAt := now,
           heap := heap D @ [OPage pg] @ map OEntity ents
                     @ [OArray (map (\<lambda>i. n + 1 + i) [0..<length ents])]\<rparr>)"

text \<open>
  The first two statements of the \<open>try\<close> block of \<open>compute\<close>: \<open>base\<close>, from the window or
  else the document, and \<open>urlObj\<close>, with its fallback when \<open>base\<close> does not parse.
\<close>

definition current_url :: "runtime \<Rightarrow> jsstring option \<Rightarrow> document \<Rightarrow> url" where
  "current_url R w d =
     (let base = (case or_null w of Some b \<Rightarrow> b | None \<Rightarrow> doc_href d)
      in case safeURL R base base of
           Some u \<Rightarrow> u
         | None \<Rightarrow> \<lparr>url_hostname = [], url_pathname = js ''/'', url_href = base\<rparr>)"

text \<open>
  The \<open>try\<close> block of \<open>compute\<close>: the exception that leaves it, if any, and the detector
  as it is at that point.
\<close>

definition compute_try :: "runtime \<Rightarrow> nat \<Rightarrow> detector \<Rightarrow> exn option \<times> detector" where
  "compute_try R now D =
     (case det_d D of
        None \<Rightarrow> (None, D)
      | Some d \<Rightarrow>
          (let urlObj = current_url R (det_w D) d
           in if \<not> isAllowedDomain (toLowerCase (rt_lower R) (url_hostname urlObj)) (cfg D)
              then
                (let D1 = set_state (classifyPage (rt_lower R) (Some urlObj) (doc_title d)) [] now D
                 in case logger_debug (det_logger D) (js ''domain:not-allowed'') of
                      Some e \<Rightarrow> (Some e, D1)
                    | None \<Rightarrow> emit_update R D1)
              else
                (let pg = classifyPage (rt_lower R) (Some urlObj) (doc_title d)
                 in case scanLinks R d (url_href urlObj) of
                      Inl e \<Rightarrow> (Some e, D)
                    | Inr linkEntities \<Rightarrow>
                        (case scanInline R d (includeSelectors (cfg D)) (maxNodes (cfg D)) of
                           Inl e \<Rightarrow> (Some e, D)
                         | Inr inlineEntities \<Rightarrow>
                             (case logger_debug (det_logger D) (js ''compute:scan'') of
                                Some e \<Rightarrow> (Some e, D)
                              | None \<Rightarrow>
                                  (let all = dedupeEntities (linkEntities @ inlineEntities)
                                   in case logger_debug (det_logger D) (js ''compute:dedupe'') of
                                        Some e \<Rightarrow> (Some e, D)
                                      | None \<Rightarrow> emit_update R (set_state pg all now D)))))))"

text \<open>
  \<open>compute\<close>: the exception that reaches the caller, if any, and the detector afterwards.
  The \<open>catch\<close> clause calls the error handler outside any \<open>try\<close>.
\<close>

definition compute :: "runtime \<Rightarrow> nat \<Rightarrow> detector \<Rightarrow> exn option \<times> detector" where
  "compute R now D =
     (if disposed D then (None, D)
      else case compute_try R now D of
        (None, D1) \<Rightarrow> (None, D1)
      | (Some e, D1) \<Rightarrow>
          (handleError (det_errorHandler D1) e (js ''compute''),
           D1\<lparr>handled := handled D1 @ [(e, js ''compute'')]\<rparr>))"

text \<open>\<open>refresh\<close> logs inside a \<open>try\<close> of its own and calls \<open>compute\<close>.\<close>

definition refresh :: "runtime \<Rightarrow> nat \<Rightarrow> detector \<Rightarrow> exn option \<times> detector" where
  "refresh R now D =
     (case logger_debug (det_logger D) (js ''refresh:manual'') of
        None \<Rightarrow> compute R now D
      | Some e \<Rightarrow> compute R now D)"

definition scheduleCompute :: "detector \<Rightarrow> detector" where
  "scheduleCompute D = D\<lparr>timer := True\<rparr>"

definition dispose :: "detector \<Rightarrow> detector" where
  "dispose D =
     (let D1 = D\<lparr>disposed := True\<rparr>;
          D2 = (case observer D1 of
                  None \<Rightarrow> D1
                | Some attached \<Rightarrow>
                    (case logger_debug (det_logger D1) (js ''observer:disconnected'') of
                       None \<Rightarrow> D1\<lparr>observer := None\<rparr>
                     | Some e \<Rightarrow> D1\<lparr>observer := None\<rparr>))
      in D2\<lparr>emitter := emitter_removeAll (emitter D2)\<rparr>)"

definition initial_page :: page where
  "initial_page =
     \<lparr>page_type = unknown, page_site = js ''unknown'', page_locale = js ''unknown'',
      canonicalUrl = [], page_confidence = 0\<rparr>"

text \<open>\<open>createDetector\<close>, from the options merged over \<open>DEFAULT_CONFIG\<close>.\<close>

definition createDetector :: "runtime \<Rightarrow> config \<Rightarrow> detector" where
  "createDetector R c =
     \<lparr>cfg = c, det_w = cfg_window c, det_d = cfg_document c, det_logger = logger c,
      det_errorHandler = errorHandler c, disposed = False,
      observer =
        (if observe c \<and> (case cfg_document c of None \<Rightarrow> False | Some d \<Rightarrow> doc_body d)
              \<and> rt_MutationObserver R
         then Some (\<not> rt_observe_throws R) else None),
      timer = False, microtask = autostart c, emitter = \<lparr>listeners = []\<rparr>,
      state_page = 0, state_entities = 1, state_lastUpdatedAt = 0,
      heap = [OPage initial_page, OArray []], emitted = [], handled = []\<rparr>"

text \<open>
  What can happen to a detector: calls of its public functions, and the host running the
  debounce timer, the autostart microtask or the mutation observer's callback.
\<close>

datatype event =
    Refresh
  | Configure "config \<Rightarrow> config"
  | Dispose
  | On jsstring nat
  | Off jsstring nat
  | GetResults
  | TimerFires
  | MicrotaskRuns
  | MutationSeen

definition step :: "runtime \<Rightarrow> nat \<Rightarrow> event \<Rightarrow> detector \<Rightarrow> detector" where
  "step R now ev D =
     (case ev of
        Refresh \<Rightarrow> snd (refresh R now D)
      | Configure f \<Rightarrow> snd (refresh R now (D\<lparr>cfg := f (cfg D)\<rparr>))
      | Dispose \<Rightarrow> dispose D
      | On name cb \<Rightarrow> D\<lparr>emitter := emitter_on name cb (emitter D)\<rparr>
      | Off name cb \<Rightarrow> D\<lparr>emitter := emitter_off name cb (emitter D)\<rparr>
      | GetResults \<Rightarrow> snd (getResults D)
      | TimerFires \<Rightarrow> (if timer D then snd (compute R now (D\<lparr>timer := False\<rparr>)) else D)
      | MicrotaskRuns \<Rightarrow> (if microtask D then scheduleCompute (D\<lparr>microtask := False\<rparr>) else D)
      | MutationSeen \<Rightarrow> (if observer D = Some True then scheduleCompute D else D))"

fun run :: "runtime \<Rightarrow> (nat \<times> event) list \<Rightarrow> detector \<Rightarrow> detector" where
  "run R [] D = D"
| "run R ((now, ev) # evs) D = run R evs (step R now ev D)"

text \<open>What the store holds at an address, read as a page, an array or an entity.\<close>

definition page_at :: "obj list \<Rightarrow> ref \<Rightarrow> page option" where
  "page_at h r =
     (if r < length h then (case h ! r of OPage p \<Rightarrow> Some p | _ \<Rightarrow> None) else None)"

definition array_at :: "obj list \<Rightarrow> ref \<Rightarrow> ref list option" where
  "array_at h r =
     (if r < length h then (case h ! r of OArray rs \<Rightarrow> Some rs | _ \<Rightarrow> None) else None)"

definition entity_at :: "obj list \<Rightarrow> ref \<Rightarrow> entity option" where
  "entity_at h r =
     (if r < length h then (case h ! r of OEntity e \<Rightarrow> Some e | _ \<Rightarrow> None) else None)"

definition entities_at :: "obj list \<Rightarrow> ref \<Rightarrow> entity option list option" where
  "entities_at h r = (case array_at h r of None \<Rightarrow> None | Some rs \<Rightarrow> Some (map (entity_at h) rs))"

text \<open>The \<open>DetectorState\<close>: the page, the entities and the time, as values.\<close>

definition state_view :: "detector \<Rightarrow> page option \<times> entity option list option \<times> nat" where
  "state_view D =
     (page_at (heap D) (state_page D), entities_at (heap D) (state_entities D),
      state_lastUpdatedAt D)"

text \<open>What a caller reads from a results object \<open>{page, entities, lastUpdatedAt}\<close>.\<close>

definition results_view ::
  "obj list \<Rightarrow> ref \<Rightarrow> (page option \<times> entity option list option \<times> nat) option" where
  "results_view h r =
     (if r < length h
      then (case h ! r of
              OResults p es t \<Rightarrow> Some (page_at h p, entities_at h es, t)
            | _ \<Rightarrow> None)
      else None)"

text \<open>
  What a caller can do to an object it holds a reference to: overwrite its fields (for an
  array: its elements). \<open>Write r ob\<close> makes \<open>ob\<close> the content of the object at \<open>r\<close>.
\<close>

datatype mutation = Write ref obj

fun target :: "mutation \<Rightarrow> ref" where
  "target (Write r ob) = r"

fun apply_mutation :: "obj list \<Rightarrow> mutation \<Rightarrow> obj list" where
  "apply_mutation h (Write r ob) = (if r < length h then h[r := ob] else h)"

text \<open>The addresses a caller reaches from a reference: the object, and what it refers to.\<close>

fun refs_of :: "obj \<Rightarrow> ref list" where
  "refs_of (OPage p) = []"
| "refs_of (OArray rs) = rs"
| "refs_of (OEntity e) = []"
| "refs_of (OResults p es t) = [p, es]"

definition reach :: "obj list \<Rightarrow> ref \<Rightarrow> ref list" where
  "reach h r =
     (let l1 = (if r < length h then refs_of (h ! r) else []);
          l2 = concat (map (\<lambda>x. if x < length h then refs_of (h ! x) else []) l1)
      in r # l1 @ l2)"

text \<open>The state refers to objects of the store, and so do the elements of its array.\<close>

definition wf_state :: "detector \<Rightarrow> bool" where
  "wf_state D =
     (state_page D < length (heap D) \<and> state_entities D < length (heap D) \<and>
      (case array_at (heap D) (state_entities D) of
         None \<Rightarrow> True
       | Some rs \<Rightarrow> list_all (\<lambda>r. r < length (heap D)) rs))"

text \<open>
  What happens around a detector, seen from the code that uses it: the host runs an event,
  the caller calls an accessor and keeps the reference it returns, or the caller writes to
  an object. A results object handed out gives its holder the page and the array in its
  fields as well: \<open>handed_out\<close>. The listeners called during an event keep the payloads
  they were given: \<open>payloads\<close>, from the calls recorded since the event began.
\<close>

datatype caller_step =
    Host nat event
  | Call_getResults
  | Call_getEntities
  | Call_getPageClassification
  | Caller_write mutation

definition handed_out :: "obj list \<Rightarrow> ref \<Rightarrow> ref list" where
  "handed_out h r =
     r # (if r < length h then (case h ! r of OResults p es t \<Rightarrow> [p, es] | _ \<Rightarrow> []) else [])"

definition payloads :: "detector \<Rightarrow> detector \<Rightarrow> ref list" where
  "payloads D D' =
     concat (map (\<lambda>c. handed_out (heap D') (snd c)) (drop (length (emitted D)) (emitted D')))"

text \<open>
  \<open>caller_do\<close> runs one step on the references held so far and the detector; each accessor
  call adds the reference the accessor returns.
\<close>

fun caller_do :: "runtime \<Rightarrow> caller_step \<Rightarrow> ref list \<times> detector \<Rightarrow> ref list \<times> detector" where
  "caller_do R (Host now ev) (held, D) =
     (let D' = step R now ev D in (held @ payloads D D', D'))"
| "caller_do R Call_getResults (held, D) =
     (case getResults D of (r, D') \<Rightarrow> (held @ handed_out (heap D') r, D'))"
| "caller_do R Call_getEntities (held, D) =
     (case getEntities D of (r, D') \<Rightarrow> (held @ [r], D'))"
| "caller_do R Call_getPageClassification (held, D) =
     (case getPageClassification D of (r, D') \<Rightarrow> (held @ [r], D'))"
| "caller_do R (Caller_write m) (held, D) = (held, D\<lparr>heap := apply_mutation (heap D) m\<rparr>)"

fun caller :: "runtime \<Rightarrow> caller_step list \<Rightarrow> ref list \<times> detector \<Rightarrow> ref list \<times> detector" where
  "caller R [] st = st"
| "caller R (s # ss) st = caller R ss (caller_do R s st)"

text \<open>
  \<open>writes_returned R ss st\<close>: every write among the steps \<open>ss\<close>, run from \<open>st\<close>, goes to an
  object whose reference is held when the write is made. \<open>no_host\<close>: the step is the
  caller's own, so that no \<open>compute\<close> runs in it.
\<close>

fun writes_held :: "caller_step \<Rightarrow> ref list \<Rightarrow> bool" where
  "writes_held (Caller_write m) held = (target m \<in> set held)"
| "writes_held s held = True"

fun writes_returned :: "runtime \<Rightarrow> caller_step list \<Rightarrow> ref list \<times> detector \<Rightarrow> bool" where
  "writes_returned R [] st = True"
| "writes_returned R (s # ss) st =
     (writes_held s (fst st) \<and> writes_returned R ss (caller_do R s st))"

fun no_host :: "caller_step \<Rightarrow> bool" where
  "no_host (Host now ev) = False"
| "no_host s = True"

section \<open>What keeps the state apart\<close>

text \<open>
  \<open>owned D\<close>: the addresses of the objects of the state, that is its page, its array and
  the entities in the array. \<open>apart held D\<close> is the invariant of a caller's steps: the
  references held are to objects of the store that the state does not own. \<open>frame D D'\<close>
  is what an event does: the store grows, the state keeps its objects or takes new ones,
  and the payloads handed to listeners are new objects that the state does not own.
\<close>

definition owned :: "detector \<Rightarrow> ref list" where
  "owned D =
     state_page D # state_entities D #
       (case array_at (heap D) (state_entities D) of None \<Rightarrow> [] | Some rs \<Rightarrow> rs)"

definition apart :: "ref list \<Rightarrow> detector \<Rightarrow> bool" where
  "apart held D = (wf_state D \<and> (\<forall>r\<in>set held. r < length (heap D) \<and> r \<notin> set (owned D)))"

definition frame :: "detector \<Rightarrow> detector \<Rightarrow> bool" where
  "frame D D' =
     (wf_state D' \<and> length (heap D) \<le> length (heap D') \<and>
      (\<forall>r\<in>set (owned D'). r \<in> set (owned D) \<or> length (heap D) \<le> r) \<and>
      (\<forall>r\<in>set (payloads D D'). r < length (heap D') \<and> r \<notin> set (owned D')))"

section \<open>What deduplication is to achieve\<close>

text \<open>
  \<open>first_best e xs\<close>: \<open>e\<close> occurs in \<open>xs\<close>, every earlier candidate with its key scores
  strictly lower, and no later one scores higher. \<open>dedupe_inv\<close> is the invariant of the
  loop of \<open>dedupeEntities\<close>, on the map and the candidates seen so far.
\<close>

definition first_best :: "entity \<Rightarrow> entity list \<Rightarrow> bool" where
  "first_best e xs =
     (\<exists>ys zs. xs = ys @ e # zs \<and>
        (\<forall>y\<in>set ys. entity_key y = entity_key e \<longrightarrow> scoreEntity y < scoreEntity e) \<and>
        (\<forall>z\<in>set zs. entity_key z = entity_key e \<longrightarrow> scoreEntity z \<le> scoreEntity e))"

definition dedupe_inv :: "(jsstring \<rightharpoonup> entity) \<Rightarrow> entity list \<Rightarrow> bool" where
  "dedupe_inv m seen =
     ((\<forall>k. (m k = None) = (k \<notin> entity_key ` set seen)) \<and>
      (\<forall>k e. m k = Some e \<longrightarrow> entity_key e = k \<and> first_best e seen))"

section \<open>Concrete inputs\<close>

text \<open>
  A page at \<open>https://example.com/page\<close> with one paragraph that mentions \<open>SCP-173\<close>, and
  the same page with a document whose element query throws. The runtime resolves the
  address of this page and that of \<open>https://scpwiki.com/about\<close>, its case tables leave a
  string that is not ASCII as it is, and its callbacks return.
\<close>

definition example_url :: url where
  "example_url = \<lparr>url_hostname = js ''example.com'', url_pathname = js ''/page'',
                   url_href = js ''https://example.com/page''\<rparr>"

definition wiki_url :: url where
  "wiki_url = \<lparr>url_hostname = js ''scpwiki.com'', url_pathname = js ''/about'',
                url_href = js ''https://scpwiki.com/about''\<rparr>"

definition at_path :: "jsstring \<Rightarrow> url" where
  "at_path p = \<lparr>url_hostname = js ''scp-wiki.wikidot.com'', url_pathname = p,
                url_href = js ''https://scp-wiki.wikidot.com'' @ p\<rparr>"

definition example_runtime :: runtime where
  "example_runtime =
     \<lparr>rt_lower = (\<lambda>s. s), rt_upper = (\<lambda>s. s),
      rt_URL = (\<lambda>h base. if h = js ''https://example.com/page'' then Some example_url
                          else if h = js ''https://scpwiki.com/about'' then Some wiki_url
                          else None),
      rt_MutationObserver = False, rt_observe_throws = False,
      rt_callback = (\<lambda>cb payload. None)\<rparr>"

definition example_paragraph :: element where
  "example_paragraph =
     \<lparr>el_node = 1, el_matches = (\<lambda>sel. False), el_href = None, el_textContent = js ''SCP-173''\<rparr>"

definition example_document :: document where
  "example_document =
     \<lparr>doc_title = js ''Example'', doc_href = js ''https://example.com/page'', doc_body = True,
      querySelectorAll = (\<lambda>sel. if sel = js ''a[href]'' then Inr [] else Inr [example_paragraph])\<rparr>"

definition broken_document :: document where
  "broken_document =
     \<lparr>doc_title = js ''Example'', doc_href = js ''https://example.com/page'', doc_body = True,
      querySelectorAll = (\<lambda>sel. if sel = js ''a[href]'' then Inr [] else Inl (Thrown 1))\<rparr>"

definition example_config :: "document \<Rightarrow> config" where
  "example_config d = DEFAULT_CONFIG\<lparr>cfg_document := Some d, observe := False, autostart := False\<rparr>"

definition example_entity :: entity where
  "example_entity = makeEntity (js ''scp-173'') scp inline None (Some (js ''SCP-173'')) (Some 1) low"

definition scanned_detector :: detector where
  "scanned_detector =
     snd (compute example_runtime 5 (createDetector example_runtime (example_config example_document)))"

section \<open>Evaluation on concrete inputs\<close>

text \<open>
  The character classes unfold on numerals only, so that a pattern stays as it is until
  it meets a code unit.
\<close>

lemma class_numeral:
  "is_digit (numeral k) = (48 \<le> (numeral k::nat) \<and> (numeral k::nat) \<le> 57)"
  "is_upper (numeral k) = (65 \<le> (numeral k::nat) \<and> (numeral k::nat) \<le> 90)"
  "is_lower (numeral k) = (97 \<le> (numeral k::nat) \<and> (numeral k::nat) \<le> 122)"
  "is_alnum (numeral k) = (is_digit (numeral k) \<or> is_upper (numeral k) \<or> is_lower (numeral k))"
  "is_word (numeral k) = (is_alnum (numeral k) \<or> (numeral k::nat) = 95)"
  "is_space (numeral k) =
     ((numeral k::nat) \<in> set [9, 10, 11, 12, 13, 32, 160, 0x1680, 0x2028, 0x2029, 0x202F,
        0x205F, 0x3000, 0xFEFF] \<or> (0x2000 \<le> (numeral k::nat) \<and> (numeral k::nat) \<le> 0x200A))"
  "lower_ascii (numeral k) = (if is_upper (numeral k) then numeral k + 32 else numeral k)"
  "toUpperCase_ascii (numeral k) = (if is_lower (numeral k) then numeral k - 32 else numeral k)"
  "swapcase (numeral k) =
     (if is_upper (numeral k) then numeral k + 32
      else if is_lower (numeral k) then numeral k - 32 else numeral k)"
  by (simp_all only: is_digit_def is_upper_def is_lower_def is_alnum_def is_word_def
      is_space_def lower_ascii_def toUpperCase_ascii_def swapcase_def)

lemmas regex_eval =
  st_rest_def at_boundary_def set_group_def Opt_def Plus_def Rep_1_4_def seqs_def chr_def
  lit_def Sym_i_def NotSym_i_def lit_i_def re_test_def re_exec_def group_def
  replace_first_def class_numeral js_def

lemmas normalize_eval =
  normalizeIdentifier_def toLowerCase_def trim_def DASH_CLASS_def REDACTED_def
  unifyDashes_def RE_SPACED_HYPHEN_def RE_IDENT_def RE_LEADING_ZEROS_def RE_SCP_PREFIX_def
  RE_001_def RE_VARIANT_def Let_def regex_eval

section \<open>The identifier normalizer: reference inputs\<close>

text \<open>
  Claim C7. \<open>normalize\<close> maps \<open>SCP-173\<close> to the id \<open>scp-173\<close> of kind \<open>scp\<close>, \<open>SCP 049 - J\<close>
  to \<open>scp-49-j\<close> of kind \<open>scp_variant\<close>, and \<open>SCP\<close>, an en dash (U+2013) and the redaction
  token to \<open>scp-unknown\<close> of kind \<open>scp\<close>, whatever the Unicode case tables are.
\<close>

theorem normalize_reference_inputs:
  "normalizeIdentifier U (js ''SCP-173'') = Some \<lparr>ident_id = js ''scp-173'', ident_kind = scp\<rparr> \<and>
   normalizeIdentifier U (js ''SCP 049 - J'')
     = Some \<lparr>ident_id = js ''scp-49-j'', ident_kind = scp_variant\<rparr> \<and>
   normalizeIdentifier U (js ''SCP'' @ [0x2013] @ REDACTED)
     = Some \<lparr>ident_id = js ''scp-unknown'', ident_kind = scp\<rparr>"
proof -
  have a: "normalizeIdentifier U (js ''SCP-173'')
             = Some \<lparr>ident_id = js ''scp-173'', ident_kind = scp\<rparr>"
    by (simp add: normalize_eval)
  have b: "normalizeIdentifier U (js ''SCP 049 - J'')
             = Some \<lparr>ident_id = js ''scp-49-j'', ident_kind = scp_variant\<rparr>"
    by (simp add: normalize_eval)
  have c: "normalizeIdentifier U (js ''SCP'' @ [0x2013] @ REDACTED)
             = Some \<lparr>ident_id = js ''scp-unknown'', ident_kind = scp\<rparr>"
    by (simp add: normalize_eval)
  from a b c show ?thesis by blast
qed

text \<open>
  Claim C1. The claim says that an accepted input with the numeric body \<open>001\<close> gets the
  kind \<open>proposal_or_article\<close>. The code strips the leading zeros first and tests the id
  for \<open>001\<close> afterwards, so \<open>SCP-001\<close> becomes \<open>scp-1\<close> of kind \<open>scp\<close>; with a class
  suffix it becomes a variant.
\<close>

theorem normalize_001_is_plain_scp:
  "normalizeIdentifier U (js ''SCP-001'') = Some \<lparr>ident_id = js ''scp-1'', ident_kind = scp\<rparr> \<and>
   normalizeIdentifier U (js ''scp 001'') = Some \<lparr>ident_id = js ''scp-1'', ident_kind = scp\<rparr>"
proof -
  have a: "normalizeIdentifier U (js ''SCP-001'')
             = Some \<lparr>ident_id = js ''scp-1'', ident_kind = scp\<rparr>"
    by (simp add: normalize_eval)
  have b: "normalizeIdentifier U (js ''scp 001'')
             = Some \<lparr>ident_id = js ''scp-1'', ident_kind = scp\<rparr>"
    by (simp add: normalize_eval)
  from a b show ?thesis by blast
qed

section \<open>The store under allocation\<close>

lemma call_listeners_result:
  "call_listeners f cbs payload = (None, map (\<lambda>cb. (cb, payload)) cbs)"
  by (induction cbs) (auto split: option.splits)

lemma emitter_emit_result:
  "emitter_emit f E ev payload = (None, map (\<lambda>cb. (cb, payload)) (listeners_of E ev))"
  by (simp add: emitter_emit_def listeners_of_def call_listeners_result split: option.splits)

lemma page_at_append: "r < length h \<Longrightarrow> page_at (h @ xs) r = page_at h r"
  by (simp add: page_at_def nth_append)

lemma array_at_append: "r < length h \<Longrightarrow> array_at (h @ xs) r = array_at h r"
  by (simp add: array_at_def nth_append)

lemma entity_at_append: "r < length h \<Longrightarrow> entity_at (h @ xs) r = entity_at h r"
  by (simp add: entity_at_def nth_append)

lemma entities_at_append:
  assumes "r < length h"
    and "case array_at h r of None \<Rightarrow> True | Some rs \<Rightarrow> list_all (\<lambda>x. x < length h) rs"
  shows "entities_at (h @ xs) r = entities_at h r"
proof (cases "array_at h r")
  case None
  with assms show ?thesis by (simp add: entities_at_def array_at_append)
next
  case (Some rs)
  with assms have "\<forall>x\<in>set rs. x < length h" by (simp add: list_all_iff)
  then have "map (entity_at (h @ xs)) rs = map (entity_at h) rs"
    by (simp add: entity_at_append)
  with Some assms show ?thesis by (simp add: entities_at_def array_at_append)
qed

lemma state_view_heap_append:
  assumes "wf_state D"
  shows "state_view (D\<lparr>heap := heap D @ xs\<rparr>) = state_view D"
  using assms by (simp add: state_view_def wf_state_def page_at_append entities_at_append)

lemma wf_state_heap_append:
  assumes "wf_state D"
  shows "wf_state (D\<lparr>heap := heap D @ xs\<rparr>)"
  using assms
  by (auto simp: wf_state_def array_at_append list_all_iff split: option.splits)

lemma getResults_heap:
  assumes "state_entities D < length (heap D)"
  shows "getResults D = (length (heap D) + 2,
     D\<lparr>heap := heap D @ [heap D ! state_page D, heap D ! state_entities D,
      OResults (length (heap D)) (Suc (length (heap D))) (state_lastUpdatedAt D)]\<rparr>)"
  using assms
  by (simp add: getResults_def getPageClassification_def getEntities_def nth_append)

lemma emit_update_result:
  assumes "state_entities D < length (heap D)"
  shows "emit_update R D =
     (None, D\<lparr>heap := heap D @ [heap D ! state_page D, heap D ! state_entities D,
                 OResults (length (heap D)) (Suc (length (heap D))) (state_lastUpdatedAt D)],
              emitted := emitted D @ map (\<lambda>cb. (cb, length (heap D) + 2))
                                       (listeners_of (emitter D) (js ''update''))\<rparr>)"
  using assms
  by (simp add: emit_update_def getResults_heap emitter_emit_result)

lemma emit_update_no_exception: "fst (emit_update R D) = None"
  by (simp add: emit_update_def emitter_emit_result split: prod.splits)

lemma emit_update_any_callbacks:
  "emit_update (R\<lparr>rt_callback := f\<rparr>) D = emit_update (R\<lparr>rt_callback := g\<rparr>) D"
  by (simp add: emit_update_def emitter_emit_result split: prod.splits)

lemma wf_state_emitted [simp]: "wf_state (D\<lparr>emitted := x\<rparr>) = wf_state D"
  by (simp add: wf_state_def split: option.splits)

lemma state_view_emitted [simp]: "state_view (D\<lparr>emitted := x\<rparr>) = state_view D"
  by (simp add: state_view_def)

lemma wf_state_handled [simp]: "wf_state (D\<lparr>handled := x\<rparr>) = wf_state D"
  by (simp add: wf_state_def split: option.splits)

lemma state_view_handled [simp]: "state_view (D\<lparr>handled := x\<rparr>) = state_view D"
  by (simp add: state_view_def)

lemma wf_state_emit_update:
  assumes "wf_state D"
  shows "wf_state (snd (emit_update R D))"
    and "state_view (snd (emit_update R D)) = state_view D"
proof -
  from assms have b: "state_entities D < length (heap D)" by (simp add: wf_state_def)
  let ?xs = "[heap D ! state_page D, heap D ! state_entities D,
      OResults (length (heap D)) (Suc (length (heap D))) (state_lastUpdatedAt D)]"
  let ?e = "emitted D @ map (\<lambda>cb. (cb, length (heap D) + 2))
                                       (listeners_of (emitter D) (js ''update''))"
  have eq: "snd (emit_update R D) = (D\<lparr>heap := heap D @ ?xs\<rparr>)\<lparr>emitted := ?e\<rparr>"
    by (simp add: emit_update_result [OF b])
  have "wf_state (D\<lparr>heap := heap D @ ?xs\<rparr>)" using assms by (rule wf_state_heap_append)
  then show "wf_state (snd (emit_update R D))"
    by (simp only: eq wf_state_emitted)
  have "state_view (D\<lparr>heap := heap D @ ?xs\<rparr>) = state_view D"
    using assms by (rule state_view_heap_append)
  then show "state_view (snd (emit_update R D)) = state_view D"
    by (simp only: eq state_view_emitted)
qed

lemma wf_state_set_state: "wf_state (set_state pg ents now D)"
  by (simp add: wf_state_def set_state_def array_at_def nth_append list_all_iff Let_def)

lemma nth_fresh_entity:
  "i < length ents \<Longrightarrow>
     (h @ OPage pg # map OEntity ents @ [a]) ! Suc (length h + i) = OEntity (ents ! i)"
  by (simp add: nth_append)

lemma state_view_set_state:
  "state_view (set_state pg ents now D) = (Some pg, Some (map Some ents), now)"
proof -
  let ?h = "heap D @ [OPage pg] @ map OEntity ents
              @ [OArray (map (\<lambda>i. length (heap D) + 1 + i) [0..<length ents])]"
  have "map (entity_at ?h) (map (\<lambda>i. length (heap D) + 1 + i) [0..<length ents])
          = map Some ents"
    by (rule nth_equalityI) (simp_all add: entity_at_def nth_fresh_entity)
  then show ?thesis
    by (simp add: state_view_def set_state_def page_at_def entities_at_def array_at_def
        nth_append Let_def)
qed

section \<open>The state stays well-formed\<close>

lemma compute_try_allowed_unchanged:
  assumes "det_d D = Some d"
    and "isAllowedDomain (toLowerCase (rt_lower R) (url_hostname (current_url R (det_w D) d))) (cfg D)"
    and "compute_try R now D = (Some e, D1)"
  shows "D1 = D"
proof -
  have ne: "\<And>X. emit_update R X \<noteq> (Some e, D1)"
    using emit_update_no_exception by (metis fst_conv option.distinct(1))
  from assms show ?thesis
    by (auto simp: compute_try_def Let_def ne split: sum.splits option.splits)
qed

lemma wf_state_compute_try:
  assumes "wf_state D"
  shows "wf_state (snd (compute_try R now D))"
  using assms
  by (auto simp: compute_try_def Let_def wf_state_emit_update wf_state_set_state
      split: sum.splits option.splits)

lemma wf_state_compute:
  assumes "wf_state D"
  shows "wf_state (snd (compute R now D))"
proof -
  have "wf_state (snd (compute_try R now D))" using assms by (rule wf_state_compute_try)
  with assms show ?thesis
    by (auto simp: compute_def split: prod.splits option.splits)
qed

lemma wf_state_cfg [simp]: "wf_state (D\<lparr>cfg := x\<rparr>) = wf_state D"
  by (simp add: wf_state_def split: option.splits)

lemma wf_state_timer [simp]: "wf_state (D\<lparr>timer := x\<rparr>) = wf_state D"
  by (simp add: wf_state_def split: option.splits)

lemma wf_state_microtask [simp]: "wf_state (D\<lparr>microtask := x\<rparr>) = wf_state D"
  by (simp add: wf_state_def split: option.splits)

lemma wf_state_emitter [simp]: "wf_state (D\<lparr>emitter := x\<rparr>) = wf_state D"
  by (simp add: wf_state_def split: option.splits)

lemma wf_state_dispose [simp]: "wf_state (dispose D) = wf_state D"
  by (simp add: dispose_def Let_def wf_state_def split: option.splits)

lemma wf_state_getResults:
  assumes "wf_state D"
  shows "wf_state (snd (getResults D))"
proof -
  from assms have b: "state_entities D < length (heap D)" by (simp add: wf_state_def)
  show ?thesis using assms by (simp add: getResults_heap [OF b] wf_state_heap_append)
qed

lemma wf_state_step:
  assumes "wf_state D"
  shows "wf_state (step R now ev D)"
  using assms
  by (cases ev)
     (simp_all add: step_def refresh_def wf_state_compute scheduleCompute_def wf_state_getResults
        split: option.splits)

lemma wf_state_run:
  assumes "wf_state D"
  shows "wf_state (run R evs D)"
  using assms by (induction evs arbitrary: D) (auto simp: wf_state_step)

lemma wf_state_createDetector: "wf_state (createDetector R c)"
  by (simp add: wf_state_def createDetector_def array_at_def)

section \<open>Callbacks and disposal\<close>

lemma scan_anchor_callback [simp]: "scan_anchor (R\<lparr>rt_callback := f\<rparr>) = scan_anchor R"
  by (rule ext)+ (simp add: scan_anchor_def safeURL_def Let_def cong: option.case_cong if_cong)

lemma scan_node_callback [simp]: "scan_node (R\<lparr>rt_callback := f\<rparr>) = scan_node R"
  by (rule ext) (simp add: scan_node_def Let_def cong: if_cong)

lemma current_url_callback [simp]: "current_url (R\<lparr>rt_callback := f\<rparr>) = current_url R"
  by (rule ext)+ (simp add: current_url_def safeURL_def Let_def cong: option.case_cong)

lemma emit_update_callback [simp]: "emit_update (R\<lparr>rt_callback := f\<rparr>) D = emit_update R D"
  by (simp add: emit_update_def emitter_emit_result split: prod.splits)

lemma compute_try_callback: "compute_try (R\<lparr>rt_callback := f\<rparr>) now D = compute_try R now D"
  by (simp add: compute_try_def scanLinks_def scanInline_def Let_def
      cong: option.case_cong sum.case_cong if_cong)

lemma compute_callback: "compute (R\<lparr>rt_callback := f\<rparr>) now D = compute R now D"
  by (simp add: compute_def compute_try_callback)

text \<open>
  Claim C10. Whatever the subscribed callbacks do when they are called (return or throw),
  \<open>emit\<close> returns normally, having called every subscribed callback once, in the order of
  subscription, with the same payload; and \<open>emit_update\<close> and \<open>compute\<close> leave the same
  detector, state included, and the same outcome, as under any other behaviour of the
  callbacks.
\<close>

theorem emit_swallows_callback_exceptions:
  "emitter_emit f E ev payload = (None, map (\<lambda>cb. (cb, payload)) (listeners_of E ev)) \<and>
   emit_update (R\<lparr>rt_callback := f\<rparr>) D = emit_update (R\<lparr>rt_callback := g\<rparr>) D \<and>
   compute (R\<lparr>rt_callback := f\<rparr>) now D = compute (R\<lparr>rt_callback := g\<rparr>) now D"
  by (simp add: emitter_emit_result compute_callback)

lemma compute_disposed: "disposed D \<Longrightarrow> compute R now D = (None, D)"
  by (simp add: compute_def)

lemma dispose_fields:
  "disposed (dispose D)" "listeners (emitter (dispose D)) = []" "observer (dispose D) = None"
  "state_view (dispose D) = state_view D" "emitted (dispose D) = emitted D"
  by (simp_all add: dispose_def Let_def emitter_removeAll_def state_view_def split: option.splits)

lemma dispose_idem: "dispose (dispose D) = dispose D"
  by (simp add: dispose_def Let_def emitter_removeAll_def split: option.splits)

lemma state_view_getResults:
  assumes "wf_state D"
  shows "state_view (snd (getResults D)) = state_view D"
proof -
  from assms have b: "state_entities D < length (heap D)" by (simp add: wf_state_def)
  show ?thesis using assms by (simp add: getResults_heap [OF b] state_view_heap_append)
qed

lemma emitted_getResults: "emitted (snd (getResults D)) = emitted D"
  by (simp add: getResults_def getPageClassification_def getEntities_def)

lemma disposed_getResults: "disposed (snd (getResults D)) = disposed D"
  by (simp add: getResults_def getPageClassification_def getEntities_def)

lemma state_view_other_fields [simp]:
  "state_view (D\<lparr>cfg := c\<rparr>) = state_view D"
  "state_view (D\<lparr>timer := t\<rparr>) = state_view D"
  "state_view (D\<lparr>microtask := t\<rparr>) = state_view D"
  "state_view (D\<lparr>emitter := E\<rparr>) = state_view D"
  by (simp_all add: state_view_def)

lemma step_disposed:
  assumes "disposed D" and "wf_state D"
  shows "disposed (step R now ev D) \<and> state_view (step R now ev D) = state_view D
         \<and> emitted (step R now ev D) = emitted D"
  using assms
  by (cases ev)
     (simp_all add: step_def refresh_def compute_disposed dispose_fields scheduleCompute_def
        state_view_getResults emitted_getResults disposed_getResults
        split: option.splits)

lemma run_disposed:
  assumes "disposed D" and "wf_state D"
  shows "disposed (run R evs D) \<and> state_view (run R evs D) = state_view D
         \<and> emitted (run R evs D) = emitted D"
  using assms
proof (induction evs arbitrary: D)
  case Nil
  then show ?case by simp
next
  case (Cons a evs)
  obtain now ev where a: "a = (now, ev)" by (cases a)
  from Cons.prems have s: "disposed (step R now ev D)" "state_view (step R now ev D) = state_view D"
      "emitted (step R now ev D) = emitted D"
    using step_disposed by blast+
  have w: "wf_state (step R now ev D)" using Cons.prems(2) by (rule wf_state_step)
  from Cons.IH [OF s(1) w] s a show ?case by simp
qed

text \<open>
  Claim C8. For a detector reached from \<open>createDetector\<close> by any events, after \<open>dispose\<close>:
  the disposed flag is set, no callback is registered, the observer is detached and
  dropped; \<open>compute\<close> and \<open>refresh\<close> change nothing and raise nothing; a second \<open>dispose\<close>
  changes nothing; and whatever happens afterwards (the debounce timer or the autostart
  microtask scheduled before disposal fire, a mutation is seen, \<open>refresh\<close>, \<open>configure\<close>,
  new subscriptions) the detector stays disposed, the state is what it was before
  \<open>dispose\<close>, and no update is emitted.
\<close>

theorem dispose_is_final:
  "(let D = run R evs0 (createDetector R c); D' = dispose D
    in disposed D' \<and> listeners (emitter D') = [] \<and> observer D' = None \<and>
       compute R now D' = (None, D') \<and> refresh R now D' = (None, D') \<and>
       dispose D' = D' \<and>
       disposed (run R evs D') \<and>
       state_view (run R evs D') = state_view D \<and>
       emitted (run R evs D') = emitted D)"
proof -
  let ?D = "run R evs0 (createDetector R c)"
  have w: "wf_state (dispose ?D)"
    by (simp add: wf_state_run wf_state_createDetector)
  have d: "disposed (dispose ?D)" by (rule dispose_fields)
  from run_disposed [OF d w, of R evs] show ?thesis
    by (simp add: Let_def dispose_fields dispose_idem compute_disposed refresh_def
        split: option.splits)
qed

section \<open>The compute cycle\<close>

lemma compute_try_not_allowed:
  assumes "det_d D = Some d"
    and "\<not> isAllowedDomain (toLowerCase (rt_lower R) (url_hostname (current_url R (det_w D) d))) (cfg D)"
  shows "compute_try R now D =
     (let D1 = set_state (classifyPage (rt_lower R) (Some (current_url R (det_w D) d)) (doc_title d))
                 [] now D
      in case logger_debug (det_logger D) (js ''domain:not-allowed'') of
           Some e \<Rightarrow> (Some e, D1)
         | None \<Rightarrow> emit_update R D1)"
  using assms by (simp add: compute_try_def Let_def)

lemma compute_try_scanned:
  assumes "det_d D = Some d"
    and "isAllowedDomain (toLowerCase (rt_lower R) (url_hostname (current_url R (det_w D) d))) (cfg D)"
    and "scanLinks R d (url_href (current_url R (det_w D) d)) = Inr lks"
    and "scanInline R d (includeSelectors (cfg D)) (maxNodes (cfg D)) = Inr ins"
    and "logger_debug (det_logger D) (js ''compute:scan'') = None"
    and "logger_debug (det_logger D) (js ''compute:dedupe'') = None"
  shows "compute_try R now D =
     emit_update R (set_state (classifyPage (rt_lower R) (Some (current_url R (det_w D) d)) (doc_title d))
       (dedupeEntities (lks @ ins)) now D)"
  using assms by (simp add: compute_try_def Let_def)

lemma results_view_emit_update:
  assumes "wf_state D"
  shows "results_view (heap (snd (emit_update R D))) (length (heap D) + 2) = Some (state_view D)"
proof -
  from assms have b: "state_entities D < length (heap D)" and a: "state_page D < length (heap D)"
    by (simp_all add: wf_state_def)
  let ?xs = "[heap D ! state_page D, heap D ! state_entities D,
      OResults (length (heap D)) (Suc (length (heap D))) (state_lastUpdatedAt D)]"
  have p: "page_at (heap D @ ?xs) (length (heap D)) = page_at (heap D) (state_page D)"
    using a by (simp add: page_at_def nth_append)
  have ar: "array_at (heap D @ ?xs) (Suc (length (heap D))) = array_at (heap D) (state_entities D)"
    using b by (simp add: array_at_def nth_append)
  have en: "entities_at (heap D @ ?xs) (Suc (length (heap D))) = entities_at (heap D) (state_entities D)"
  proof (cases "array_at (heap D) (state_entities D)")
    case None
    then show ?thesis by (simp add: entities_at_def ar)
  next
    case (Some rs)
    with assms have "\<forall>x\<in>set rs. x < length (heap D)"
      by (simp add: wf_state_def list_all_iff)
    then have "map (entity_at (heap D @ ?xs)) rs = map (entity_at (heap D)) rs"
      by (simp add: entity_at_append)
    with Some show ?thesis by (simp add: entities_at_def ar)
  qed
  show ?thesis
    by (simp add: emit_update_result [OF b] results_view_def nth_append p en state_view_def)
qed

lemma compute_completes:
  assumes "\<not> disposed D" and "compute_try R now D = X" and "fst X = None"
  shows "compute R now D = (None, snd X)"
  using assms by (cases X) (simp add: compute_def)

text \<open>
  Claim C3, amended. In the model an exception leaves the \<open>try\<close> block before the state is
  replaced only on the scanning path, that is when the domain is allowed: from
  \<open>querySelectorAll\<close> in either scanner or from \<open>logger.debug\<close>. For every such cycle the
  exception is passed to the error handler with the action \<open>compute\<close>, and the detector
  afterwards is exactly the detector before, but for the record of that call: page,
  entities and \<open>lastUpdatedAt\<close> are unchanged. What reaches the caller of \<open>compute\<close> and of
  \<open>refresh\<close> is what the error handler does: nothing when it returns (the default handler
  always does), its own exception when it throws.
\<close>

theorem compute_exception_before_replacement:
  assumes "\<not> disposed D"
    and "det_d D = Some d"
    and "isAllowedDomain (toLowerCase (rt_lower R) (url_hostname (current_url R (det_w D) d))) (cfg D)"
    and "compute_try R now D = (Some e, D1)"
  shows "snd (compute R now D) = D\<lparr>handled := handled D @ [(e, js ''compute'')]\<rparr> \<and>
         state_view (snd (compute R now D)) = state_view D \<and>
         fst (compute R now D) = handleError (det_errorHandler D) e (js ''compute'') \<and>
         (det_errorHandler D = None \<longrightarrow> fst (compute R now D) = None) \<and>
         refresh R now D = compute R now D"
proof -
  from assms(2-4) have "D1 = D" by (rule compute_try_allowed_unchanged)
  with assms(1,4) have c: "compute R now D
      = (handleError (det_errorHandler D) e (js ''compute''), D\<lparr>handled := handled D @ [(e, js ''compute'')]\<rparr>)"
    by (simp add: compute_def)
  show ?thesis
    by (simp add: c refresh_def handleError_def split: option.splits)
qed

text \<open>
  Claim C4, amended. For every non-empty \<open>allowedDomains\<close> list and every non-empty
  current hostname that is not in it, \<open>compute\<close> on a live detector with a document leaves
  a state with no entities, the real classification of the page and the current time;
  and when \<open>logger.debug\<close> returns on \<open>domain:not-allowed\<close>, nothing is raised and every
  callback subscribed to \<open>update\<close> is called with a results object that shows that state.
\<close>

theorem disallowed_domain_clears_entities:
  assumes "\<not> disposed D"
    and "det_d D = Some d"
    and "allowedDomains (cfg D) = Some ds"
    and "ds \<noteq> []"
    and "h = toLowerCase (rt_lower R) (url_hostname (current_url R (det_w D) d))"
    and "h \<noteq> []"
    and "h \<notin> set ds"
  shows "(let D' = snd (compute R now D)
          in state_view D' =
               (Some (classifyPage (rt_lower R) (Some (current_url R (det_w D) d)) (doc_title d)),
                Some [], now) \<and>
             (logger_debug (det_logger D) (js ''domain:not-allowed'') = None \<longrightarrow>
                fst (compute R now D) = None \<and>
                emitted D' = emitted D @ map (\<lambda>cb. (cb, length (heap D) + 4))
                                           (listeners_of (emitter D) (js ''update'')) \<and>
                results_view (heap D') (length (heap D) + 4) = Some (state_view D')))"
proof -
  let ?pg = "classifyPage (rt_lower R) (Some (current_url R (det_w D) d)) (doc_title d)"
  let ?D1 = "set_state ?pg [] now D"
  from assms(3-7) have na: "\<not> isAllowedDomain
      (toLowerCase (rt_lower R) (url_hostname (current_url R (det_w D) d))) (cfg D)"
    by (simp add: isAllowedDomain_def)
  have ct: "compute_try R now D =
      (case logger_debug (det_logger D) (js ''domain:not-allowed'') of
         Some e \<Rightarrow> (Some e, ?D1) | None \<Rightarrow> emit_update R ?D1)"
    using compute_try_not_allowed [OF assms(2) na] by (simp add: Let_def)
  have w1: "wf_state ?D1" by (rule wf_state_set_state)
  have v1: "state_view ?D1 = (Some ?pg, Some [], now)"
    using state_view_set_state [of ?pg "[]" now D] by simp
  have l1: "length (heap ?D1) = length (heap D) + 2" by (simp add: set_state_def Let_def)
  have em1: "emitted ?D1 = emitted D" "emitter ?D1 = emitter D"
    by (simp_all add: set_state_def Let_def)
  have se: "state_entities ?D1 < length (heap ?D1)" using w1 by (simp add: wf_state_def)
  show ?thesis
  proof (cases "logger_debug (det_logger D) (js ''domain:not-allowed'')")
    case (Some e)
    with ct assms(1) have "snd (compute R now D) = ?D1\<lparr>handled := handled ?D1 @ [(e, js ''compute'')]\<rparr>"
      by (simp add: compute_def)
    with Some v1 show ?thesis by (simp add: Let_def)
  next
    case None
    with ct have ct': "compute_try R now D = emit_update R ?D1" by simp
    have f: "fst (emit_update R ?D1) = None" by (rule emit_update_no_exception)
    have c: "compute R now D = (None, snd (emit_update R ?D1))"
      using assms(1) ct' f by (rule compute_completes)
    have v: "state_view (snd (emit_update R ?D1)) = state_view ?D1"
      using w1 by (rule wf_state_emit_update)
    have idx: "length (heap ?D1) + 2 = length (heap D) + 4" by (simp add: l1)
    have r: "results_view (heap (snd (emit_update R ?D1))) (length (heap D) + 4) = Some (state_view ?D1)"
      using results_view_emit_update [OF w1, of R] unfolding idx .
    have "emitted (snd (emit_update R ?D1)) =
        emitted ?D1 @ map (\<lambda>cb. (cb, length (heap ?D1) + 2)) (listeners_of (emitter ?D1) (js ''update''))"
      by (simp add: emit_update_result [OF se])
    then have e: "emitted (snd (emit_update R ?D1)) =
        emitted D @ map (\<lambda>cb. (cb, length (heap D) + 4)) (listeners_of (emitter D) (js ''update''))"
      unfolding idx em1 .
    from None c v r e v1 show ?thesis by (simp add: Let_def)
  qed
qed

section \<open>Site and locale\<close>

lemma classifyPage_site:
  "page_site (classifyPage U (Some u) t) = site_of (toLowerCase U (url_hostname u))"
  "page_locale (classifyPage U (Some u) t) = locale_of (toLowerCase U (url_hostname u))"
  by (simp_all add: classifyPage_def Let_def)

section \<open>The concrete inputs, evaluated\<close>

lemma inline_loop_numeral:
  "inline_loop U el (numeral k) b rest =
     (case search ID_INLINE_REGEX b rest of
        None \<Rightarrow> []
      | Some (b0, (b', rest', g)) \<Rightarrow>
          (case group g 1 of
             None \<Rightarrow> inline_loop U el (pred_numeral k) b' rest'
           | Some candidate \<Rightarrow>
               (case normalizeIdentifier U candidate of
                  None \<Rightarrow> []
                | Some nm \<Rightarrow>
                    [makeEntity (ident_id nm) (ident_kind nm) inline None (Some candidate)
                       (Some (el_node el)) low])
               @ inline_loop U el (pred_numeral k) b' rest'))"
  by (simp add: numeral_eq_Suc)

lemma example_current_url:
  "doc_href d = js ''https://example.com/page''
     \<Longrightarrow> current_url example_runtime None d = example_url"
  by (simp add: current_url_def safeURL_def example_runtime_def or_null_def)

lemma example_hostname:
  "toLowerCase (rt_lower example_runtime) (url_hostname example_url) = js ''example.com''"
  by (simp add: example_url_def toLowerCase_def js_def class_numeral)

lemma example_scanLinks:
  "scanLinks example_runtime example_document h = Inr []"
  "scanLinks example_runtime broken_document h = Inr []"
  by (simp_all add: scanLinks_def example_document_def broken_document_def)

lemma example_search:
  "search ID_INLINE_REGEX [] (js ''SCP-173'')
     = Some ([], (rev (js ''SCP-173''), [], [(2, js ''173''), (1, js ''SCP-173'')]))"
  by (simp add: ID_INLINE_REGEX_def DASH_CLASS_def REDACTED_def regex_eval)

lemma example_search_end: "search ID_INLINE_REGEX (rev (js ''SCP-173'')) [] = None"
  by (simp add: ID_INLINE_REGEX_def DASH_CLASS_def REDACTED_def regex_eval)

lemma example_normalize:
  "normalizeIdentifier U (js ''SCP-173'') = Some \<lparr>ident_id = js ''scp-173'', ident_kind = scp\<rparr>"
  by (simp add: normalize_eval)

lemma example_scan_node:
  "scan_node example_runtime example_paragraph
     = [makeEntity (js ''scp-173'') scp inline None (Some (js ''SCP-173'')) (Some 1) low]"
proof -
  have t: "trim (js ''SCP-173'') = js ''SCP-173''" by (simp add: trim_def js_def class_numeral)
  have n: "js ''SCP-173'' \<noteq> []" by (simp add: js_def)
  have l: "inline_loop U el 20 [] (js ''SCP-173'')
        = [makeEntity (js ''scp-173'') scp inline None (Some (js ''SCP-173'')) (Some (el_node el)) low]"
    for U el
    by (simp add: inline_loop_numeral example_search example_search_end example_normalize group_def
        del: search.simps)
  show ?thesis
    by (simp add: scan_node_def elementExcluded_def example_paragraph_def t n l Let_def)
qed

lemma example_scanInline:
  "scanInline example_runtime example_document DEFAULT_INCLUDE_SELECTOR 5000
     = Inr [makeEntity (js ''scp-173'') scp inline None (Some (js ''SCP-173'')) (Some 1) low]"
proof -
  have q: "querySelectorAll example_document DEFAULT_INCLUDE_SELECTOR = Inr [example_paragraph]"
    by (simp add: example_document_def DEFAULT_INCLUDE_SELECTOR_def js_def)
  show ?thesis by (simp add: scanInline_def q example_scan_node)
qed

lemma broken_scanInline:
  "scanInline example_runtime broken_document DEFAULT_INCLUDE_SELECTOR n = Inl (Thrown 1)"
proof -
  have q: "querySelectorAll broken_document DEFAULT_INCLUDE_SELECTOR = Inl (Thrown 1)"
    by (simp add: broken_document_def DEFAULT_INCLUDE_SELECTOR_def js_def)
  show ?thesis by (simp add: scanInline_def q)
qed

lemma dedupe_single: "dedupeEntities [e] = [e]"
  by (simp add: dedupeEntities_def)

section \<open>The compute cycle on the concrete inputs\<close>

lemma compute_scanned:
  assumes "\<not> disposed D"
    and "det_d D = Some d"
    and "isAllowedDomain (toLowerCase (rt_lower R) (url_hostname (current_url R (det_w D) d))) (cfg D)"
    and "scanLinks R d (url_href (current_url R (det_w D) d)) = Inr lks"
    and "scanInline R d (includeSelectors (cfg D)) (maxNodes (cfg D)) = Inr ins"
    and "logger_debug (det_logger D) (js ''compute:scan'') = None"
    and "logger_debug (det_logger D) (js ''compute:dedupe'') = None"
  shows "fst (compute R now D) = None"
    and "fst (compute_try R now D) = None"
    and "state_view (snd (compute R now D)) =
           (Some (classifyPage (rt_lower R) (Some (current_url R (det_w D) d)) (doc_title d)),
            Some (map Some (dedupeEntities (lks @ ins))), now)"
proof -
  let ?S = "set_state (classifyPage (rt_lower R) (Some (current_url R (det_w D) d)) (doc_title d))
       (dedupeEntities (lks @ ins)) now D"
  have ct: "compute_try R now D = emit_update R ?S"
    using assms(2-7) by (rule compute_try_scanned)
  have f: "fst (emit_update R ?S) = None" by (rule emit_update_no_exception)
  have c: "compute R now D = (None, snd (emit_update R ?S))"
    using assms(1) ct f by (rule compute_completes)
  show "fst (compute R now D) = None" by (simp add: c)
  show "fst (compute_try R now D) = None" by (simp add: ct f)
  have "state_view (snd (emit_update R ?S)) = state_view ?S"
    by (rule wf_state_emit_update) (rule wf_state_set_state)
  then show "state_view (snd (compute R now D)) =
           (Some (classifyPage (rt_lower R) (Some (current_url R (det_w D) d)) (doc_title d)),
            Some (map Some (dedupeEntities (lks @ ins))), now)"
    by (simp add: c state_view_set_state)
qed

lemma example_detector:
  "\<not> disposed (createDetector R c)" "cfg (createDetector R c) = c"
  "det_w (createDetector R c) = cfg_window c" "det_d (createDetector R c) = cfg_document c"
  "det_logger (createDetector R c) = logger c"
  "det_errorHandler (createDetector R c) = errorHandler c"
  "handled (createDetector R c) = []" "emitted (createDetector R c) = []"
  "heap (createDetector R c) = [OPage initial_page, OArray []]"
  "emitter (createDetector R c) = \<lparr>listeners = []\<rparr>"
  by (simp_all add: createDetector_def)

lemma example_config_fields:
  "cfg_document (example_config d) = Some d" "cfg_window (example_config d) = None"
  "allowedDomains (example_config d) = None" "allowAllDomains (example_config d)"
  "includeSelectors (example_config d) = DEFAULT_INCLUDE_SELECTOR"
  "maxNodes (example_config d) = 5000" "logger (example_config d) = None"
  "errorHandler (example_config d) = None"
  by (simp_all add: example_config_def DEFAULT_CONFIG_def)

lemma example_doc_fields:
  "doc_href example_document = js ''https://example.com/page''"
  "doc_href broken_document = js ''https://example.com/page''"
  "doc_title example_document = js ''Example''"
  by (simp_all add: example_document_def broken_document_def)

lemma example_site:
  "site_of (js ''example.com'') = js ''unknown''"
  "locale_of (js ''example.com'') = js ''unknown''"
  "site_of (js ''scpwiki.com'') = js ''scp-wiki''"
  "locale_of (js ''scpwiki.com'') = js ''en''"
  by (simp_all add: site_of_def locale_of_def DEFAULT_DOMAIN_MAP_def js_def)

text \<open>
  Claim C2: the site and locale of the page are the entry of the detector's configured
  \<open>domainMap\<close> for the lower-cased hostname. The code departs from it. \<open>domainMap\<close> is an
  option of the configuration, merged over the defaults like \<open>includeSelectors\<close>,
  \<open>maxNodes\<close> and \<open>allowedDomains\<close>, which \<open>compute\<close> reads from \<open>cfg\<close>; but \<open>classifyPage\<close>
  looks the hostname up in \<open>DEFAULT_CONFIG.domainMap\<close>. A detector configured with a
  \<open>domainMap\<close> that maps \<open>example.com\<close> to the site \<open>my-wiki\<close> and the locale \<open>xx\<close>
  classifies a page of \<open>example.com\<close> with site \<open>unknown\<close> and locale \<open>unknown\<close>.
\<close>

theorem configured_domainMap_is_ignored:
  "map_of (domainMap ((example_config example_document)
       \<lparr>domainMap := [(js ''example.com'', \<lparr>entry_site = js ''my-wiki'', entry_locale = js ''xx''\<rparr>)]\<rparr>))
     (js ''example.com'') = Some \<lparr>entry_site = js ''my-wiki'', entry_locale = js ''xx''\<rparr> \<and>
   map_option page_site (fst (state_view (snd (compute example_runtime 5
     (createDetector example_runtime ((example_config example_document)
       \<lparr>domainMap := [(js ''example.com'', \<lparr>entry_site = js ''my-wiki'', entry_locale = js ''xx''\<rparr>)]\<rparr>))))))
     = Some (js ''unknown'') \<and>
   map_option page_locale (fst (state_view (snd (compute example_runtime 5
     (createDetector example_runtime ((example_config example_document)
       \<lparr>domainMap := [(js ''example.com'', \<lparr>entry_site = js ''my-wiki'', entry_locale = js ''xx''\<rparr>)]\<rparr>))))))
     = Some (js ''unknown'')"
proof -
  let ?c = "(example_config example_document)
       \<lparr>domainMap := [(js ''example.com'', \<lparr>entry_site = js ''my-wiki'', entry_locale = js ''xx''\<rparr>)]\<rparr>"
  let ?D = "createDetector example_runtime ?c"
  have u: "current_url example_runtime (det_w ?D) example_document = example_url"
      "current_url example_runtime None example_document = example_url"
    by (simp_all add: example_detector example_current_url example_config_fields example_doc_fields)
  have v: "state_view (snd (compute example_runtime 5 ?D)) =
      (Some (classifyPage (rt_lower example_runtime)
               (Some (current_url example_runtime (det_w ?D) example_document))
               (doc_title example_document)),
       Some (map Some (dedupeEntities ([] @
          [makeEntity (js ''scp-173'') scp inline None (Some (js ''SCP-173'')) (Some 1) low]))), 5)"
    by (rule compute_scanned)
       (simp_all add: example_detector example_config_fields u example_hostname isAllowedDomain_def
          example_scanLinks example_scanInline logger_debug_def)
  show ?thesis
    by (simp add: v u classifyPage_site example_hostname example_site)
qed

text \<open>
  Claim C3, amended, on the document whose element query throws: the exception leaves the
  \<open>try\<close> block with the detector untouched, it is handed to the default handler, and
  \<open>compute\<close> returns normally.
\<close>

theorem compute_exception_before_replacement_witness:
  "compute_try example_runtime 5 (createDetector example_runtime (example_config broken_document))
     = (Some (Thrown 1), createDetector example_runtime (example_config broken_document)) \<and>
   compute example_runtime 5 (createDetector example_runtime (example_config broken_document))
     = (None, (createDetector example_runtime (example_config broken_document))
                \<lparr>handled := [(Thrown 1, js ''compute'')]\<rparr>)"
proof -
  let ?D = "createDetector example_runtime (example_config broken_document)"
  have u: "current_url example_runtime (det_w ?D) broken_document = example_url"
      "current_url example_runtime None broken_document = example_url"
    by (simp_all add: example_detector example_current_url example_config_fields example_doc_fields)
  have h1: "\<not> disposed ?D" by (simp add: example_detector)
  have h2: "det_d ?D = Some broken_document"
    by (simp add: example_detector example_config_fields)
  have h3: "isAllowedDomain (toLowerCase (rt_lower example_runtime)
             (url_hostname (current_url example_runtime (det_w ?D) broken_document))) (cfg ?D)"
    by (simp add: u example_hostname isAllowedDomain_def example_detector example_config_fields)
  have h4: "compute_try example_runtime 5 ?D = (Some (Thrown 1), ?D)"
    using h3
    by (simp add: compute_try_def example_detector example_config_fields u example_scanLinks
        broken_scanInline)
  from compute_exception_before_replacement [OF h1 h2 h3 h4] h4 show ?thesis
    by (simp add: prod_eq_iff example_detector example_config_fields handleError_def)
qed

text \<open>
  Claim C3 as stated fails: with an injected error handler that throws, the handler's
  exception reaches the caller of \<open>compute\<close>.
\<close>

theorem throwing_error_handler_escapes:
  "fst (compute example_runtime 5
         (createDetector example_runtime
            ((example_config broken_document)\<lparr>errorHandler := Some (\<lambda>e action. Some (Thrown 2))\<rparr>)))
     = Some (Thrown 2)"
proof -
  let ?c = "(example_config broken_document)\<lparr>errorHandler := Some (\<lambda>e action. Some (Thrown 2))\<rparr>"
  let ?D = "createDetector example_runtime ?c"
  have u: "current_url example_runtime (det_w ?D) broken_document = example_url"
      "current_url example_runtime None broken_document = example_url"
    by (simp_all add: example_detector example_current_url example_config_fields example_doc_fields)
  have h3: "isAllowedDomain (toLowerCase (rt_lower example_runtime)
             (url_hostname (current_url example_runtime (det_w ?D) broken_document))) (cfg ?D)"
    by (simp add: u example_hostname isAllowedDomain_def example_detector example_config_fields)
  have h4: "compute_try example_runtime 5 ?D = (Some (Thrown 1), ?D)"
    using h3
    by (simp add: compute_try_def example_detector example_config_fields u example_scanLinks
        broken_scanInline)
  show ?thesis
    by (simp add: compute_def h4 example_detector handleError_def)
qed

text \<open>
  Claim C4 as stated fails: with the empty list as \<open>allowedDomains\<close>, the page of
  \<open>example.com\<close> is scanned and its mention of \<open>SCP-173\<close> is in the state.
\<close>

theorem empty_allowlist_allows_every_host:
  "allowedDomains ((example_config example_document)\<lparr>allowedDomains := Some []\<rparr>) = Some [] \<and>
   fst (snd (state_view (snd (compute example_runtime 5
     (createDetector example_runtime
        ((example_config example_document)\<lparr>allowedDomains := Some []\<rparr>))))))
     = Some [Some (makeEntity (js ''scp-173'') scp inline None (Some (js ''SCP-173'')) (Some 1) low)]"
proof -
  let ?c = "(example_config example_document)\<lparr>allowedDomains := Some []\<rparr>"
  let ?D = "createDetector example_runtime ?c"
  have u: "current_url example_runtime (det_w ?D) example_document = example_url"
      "current_url example_runtime None example_document = example_url"
    by (simp_all add: example_detector example_current_url example_config_fields example_doc_fields)
  have v: "state_view (snd (compute example_runtime 5 ?D)) =
      (Some (classifyPage (rt_lower example_runtime)
               (Some (current_url example_runtime (det_w ?D) example_document))
               (doc_title example_document)),
       Some (map Some (dedupeEntities ([] @
          [makeEntity (js ''scp-173'') scp inline None (Some (js ''SCP-173'')) (Some 1) low]))), 5)"
    by (rule compute_scanned)
       (simp_all add: example_detector example_config_fields u example_hostname isAllowedDomain_def
          example_scanLinks example_scanInline logger_debug_def)
  show ?thesis by (simp add: v dedupe_single)
qed

text \<open>
  Claim C4, amended, on the page of \<open>example.com\<close> with only the wiki's hostname allowed.
\<close>

theorem disallowed_domain_clears_entities_witness:
  "js ''example.com'' \<notin> set [js ''scp-wiki.wikidot.com''] \<and>
   state_view (snd (compute example_runtime 5
     (createDetector example_runtime
        ((example_config example_document)\<lparr>allowedDomains := Some [js ''scp-wiki.wikidot.com'']\<rparr>))))
     = (Some (classifyPage (\<lambda>s. s) (Some example_url) (js ''Example'')), Some [], 5) \<and>
   fst (compute example_runtime 5
     (createDetector example_runtime
        ((example_config example_document)\<lparr>allowedDomains := Some [js ''scp-wiki.wikidot.com'']\<rparr>)))
     = None"
proof -
  let ?c = "(example_config example_document)\<lparr>allowedDomains := Some [js ''scp-wiki.wikidot.com'']\<rparr>"
  let ?D = "createDetector example_runtime ?c"
  have u: "current_url example_runtime (det_w ?D) example_document = example_url"
      "current_url example_runtime None example_document = example_url"
    by (simp_all add: example_detector example_current_url example_config_fields example_doc_fields)
  have h1: "\<not> disposed ?D" by (simp add: example_detector)
  have h2: "det_d ?D = Some example_document"
    by (simp add: example_detector example_config_fields)
  have h3: "allowedDomains (cfg ?D) = Some [js ''scp-wiki.wikidot.com'']"
    by (simp add: example_detector)
  have h4: "[js ''scp-wiki.wikidot.com''] \<noteq> []" by simp
  have h5: "js ''example.com'' = toLowerCase (rt_lower example_runtime)
              (url_hostname (current_url example_runtime (det_w ?D) example_document))"
    by (simp add: u example_hostname)
  have h6: "js ''example.com'' \<noteq> []" by (simp add: js_def)
  have h7: "js ''example.com'' \<notin> set [js ''scp-wiki.wikidot.com'']" by (simp add: js_def)
  have r: "rt_lower example_runtime = (\<lambda>s. s)" by (simp add: example_runtime_def)
  from disallowed_domain_clears_entities [OF h1 h2 h3 h4 h5 h6 h7, of 5] h7 show ?thesis
    by (simp add: Let_def u r example_doc_fields logger_debug_def example_detector
        example_config_fields)
qed

section \<open>The branches of the classifier\<close>

lemmas classify_eval =
  classifyPage_def site_of_def locale_of_def DEFAULT_DOMAIN_MAP_def toLowerCase_def
  RE_SCP_PATH_def RE_SCP001_PATH_def RE_TITLE_ARTICLE_def RE_SERIES_PATH_def
  RE_SERIES_TITLE_def RE_HUB_PATH_def RE_HUB_TITLE_def RE_TALE_PATH_def RE_TALE_TITLE_def
  Let_def regex_eval

text \<open>
  Claim C6. For every URL and title, \<open>classifyPage\<close> takes the first branch that matches,
  in this order, and returns that branch's type and literal confidence: the proposal path
  (\<open>proposal_or_index\<close>, 0.6); the numbered-article pattern on the path (\<open>scp_article\<close>,
  0.9) or else on the title only (\<open>scp_article\<close>, 0.6); series (0.6); hub (0.5); tale
  (0.4); otherwise \<open>non_scp\<close> at 0.3 when the site is the wiki and \<open>unknown\<close> at 0.1 when
  it is not.
\<close>

theorem classify_first_match:
  "(let u = (case urlObj of
               None \<Rightarrow> \<lparr>url_hostname = [], url_pathname = js ''/'', url_href = []\<rparr>
             | Some x \<Rightarrow> x);
        path = toLowerCase U (if url_pathname u = [] then js ''/'' else url_pathname u);
        t = toLowerCase U title;
        wiki = (site_of (toLowerCase U (url_hostname u)) = js ''scp-wiki'');
        p001 = re_test RE_SCP001_PATH path;
        ppath = re_test RE_SCP_PATH path;
        tart = re_test RE_TITLE_ARTICLE t;
        ser = (re_test RE_SERIES_PATH path \<or> re_test RE_SERIES_TITLE t);
        hb = (re_test RE_HUB_PATH path \<or> re_test RE_HUB_TITLE t);
        tl = (re_test RE_TALE_PATH path \<or> re_test RE_TALE_TITLE t);
        pg = classifyPage U urlObj title
    in (p001 \<longrightarrow> page_type pg = proposal_or_index \<and> page_confidence pg = 0.6) \<and>
       (\<not> p001 \<and> ppath \<longrightarrow> page_type pg = scp_article \<and> page_confidence pg = 0.9) \<and>
       (\<not> p001 \<and> \<not> ppath \<and> tart \<longrightarrow> page_type pg = scp_article \<and> page_confidence pg = 0.6) \<and>
       (\<not> p001 \<and> \<not> ppath \<and> \<not> tart \<and> ser \<longrightarrow> page_type pg = series \<and> page_confidence pg = 0.6) \<and>
       (\<not> p001 \<and> \<not> ppath \<and> \<not> tart \<and> \<not> ser \<and> hb
          \<longrightarrow> page_type pg = hub \<and> page_confidence pg = 0.5) \<and>
       (\<not> p001 \<and> \<not> ppath \<and> \<not> tart \<and> \<not> ser \<and> \<not> hb \<and> tl
          \<longrightarrow> page_type pg = tale \<and> page_confidence pg = 0.4) \<and>
       (\<not> p001 \<and> \<not> ppath \<and> \<not> tart \<and> \<not> ser \<and> \<not> hb \<and> \<not> tl \<and> wiki
          \<longrightarrow> page_type pg = non_scp \<and> page_confidence pg = 0.3) \<and>
       (\<not> p001 \<and> \<not> ppath \<and> \<not> tart \<and> \<not> ser \<and> \<not> hb \<and> \<not> tl \<and> \<not> wiki
          \<longrightarrow> page_type pg = unknown \<and> page_confidence pg = 0.1))"
  by (simp add: classifyPage_def Let_def)

text \<open>The tests of the classifier on the paths and titles used below: each is run once.\<close>

lemma example_lower:
  "toLowerCase U (js ''/scp-001'') = js ''/scp-001''" "toLowerCase U (js ''/1'') = js ''/1''"
  "toLowerCase U (js ''/'') = js ''/''" "toLowerCase U (js ''/hub'') = js ''/hub''"
  "toLowerCase U (js ''/page'') = js ''/page''" "toLowerCase U [] = []"
  "toLowerCase U (js ''scp-1'') = js ''scp-1''" "toLowerCase U (js ''series i'') = js ''series i''"
  "toLowerCase U (js ''tale'') = js ''tale''"
  "toLowerCase U (js ''scp-wiki.wikidot.com'') = js ''scp-wiki.wikidot.com''"
  "toLowerCase U (js ''example.com'') = js ''example.com''"
  by (simp_all add: toLowerCase_def js_def class_numeral)

lemma example_nonempty:
  "js ''/scp-001'' \<noteq> []" "js ''/1'' \<noteq> []" "js ''/'' \<noteq> []" "js ''/hub'' \<noteq> []"
  "js ''/page'' \<noteq> []" "js ''unknown'' \<noteq> js ''scp-wiki''"
  by (simp_all add: js_def)

lemma example_wiki_site: "site_of (js ''scp-wiki.wikidot.com'') = js ''scp-wiki''"
  by (simp add: site_of_def DEFAULT_DOMAIN_MAP_def js_def)

lemma example_path_tests:
  "re_test RE_SCP001_PATH (js ''/scp-001'')"
  "\<not> re_test RE_SCP001_PATH (js ''/1'')" "re_test RE_SCP_PATH (js ''/1'')"
  "\<not> re_test RE_SCP001_PATH (js ''/'')" "\<not> re_test RE_SCP_PATH (js ''/'')"
  "\<not> re_test RE_SERIES_PATH (js ''/'')" "\<not> re_test RE_HUB_PATH (js ''/'')"
  "\<not> re_test RE_TALE_PATH (js ''/'')"
  "\<not> re_test RE_SCP001_PATH (js ''/hub'')" "\<not> re_test RE_SCP_PATH (js ''/hub'')"
  "\<not> re_test RE_SERIES_PATH (js ''/hub'')" "re_test RE_HUB_PATH (js ''/hub'')"
  "\<not> re_test RE_SCP001_PATH (js ''/page'')" "\<not> re_test RE_SCP_PATH (js ''/page'')"
  "\<not> re_test RE_SERIES_PATH (js ''/page'')" "\<not> re_test RE_HUB_PATH (js ''/page'')"
  "\<not> re_test RE_TALE_PATH (js ''/page'')"
  by (simp_all add: RE_SCP001_PATH_def RE_SCP_PATH_def RE_SERIES_PATH_def RE_HUB_PATH_def
      RE_TALE_PATH_def regex_eval)

lemma example_title_tests:
  "\<not> re_test RE_TITLE_ARTICLE []" "\<not> re_test RE_SERIES_TITLE []"
  "\<not> re_test RE_HUB_TITLE []" "\<not> re_test RE_TALE_TITLE []"
  "re_test RE_TITLE_ARTICLE (js ''scp-1'')"
  "\<not> re_test RE_TITLE_ARTICLE (js ''series i'')" "re_test RE_SERIES_TITLE (js ''series i'')"
  "\<not> re_test RE_TITLE_ARTICLE (js ''tale'')" "\<not> re_test RE_SERIES_TITLE (js ''tale'')"
  "\<not> re_test RE_HUB_TITLE (js ''tale'')" "re_test RE_TALE_TITLE (js ''tale'')"
  by (simp_all add: RE_TITLE_ARTICLE_def RE_SERIES_TITLE_def RE_HUB_TITLE_def RE_TALE_TITLE_def
      regex_eval)

text \<open>Claim C6 on one input for each of the eight branches.\<close>

theorem classify_first_match_witness:
  "(page_type (classifyPage (\<lambda>s. s) (Some (at_path (js ''/scp-001''))) []) = proposal_or_index \<and>
    page_confidence (classifyPage (\<lambda>s. s) (Some (at_path (js ''/scp-001''))) []) = 0.6) \<and>
   (page_type (classifyPage (\<lambda>s. s) (Some (at_path (js ''/1''))) []) = scp_article \<and>
    page_confidence (classifyPage (\<lambda>s. s) (Some (at_path (js ''/1''))) []) = 0.9) \<and>
   (page_type (classifyPage (\<lambda>s. s) (Some (at_path (js ''/''))) (js ''scp-1'')) = scp_article \<and>
    page_confidence (classifyPage (\<lambda>s. s) (Some (at_path (js ''/''))) (js ''scp-1'')) = 0.6) \<and>
   (page_type (classifyPage (\<lambda>s. s) (Some (at_path (js ''/''))) (js ''series i'')) = series \<and>
    page_confidence (classifyPage (\<lambda>s. s) (Some (at_path (js ''/''))) (js ''series i'')) = 0.6) \<and>
   (page_type (classifyPage (\<lambda>s. s) (Some (at_path (js ''/hub''))) []) = hub \<and>
    page_confidence (classifyPage (\<lambda>s. s) (Some (at_path (js ''/hub''))) []) = 0.5) \<and>
   (page_type (classifyPage (\<lambda>s. s) (Some (at_path (js ''/''))) (js ''tale'')) = tale \<and>
    page_confidence (classifyPage (\<lambda>s. s) (Some (at_path (js ''/''))) (js ''tale'')) = 0.4) \<and>
   (page_type (classifyPage (\<lambda>s. s) (Some (at_path (js ''/''))) []) = non_scp \<and>
    page_confidence (classifyPage (\<lambda>s. s) (Some (at_path (js ''/''))) []) = 0.3) \<and>
   (page_type (classifyPage (\<lambda>s. s) (Some example_url) []) = unknown \<and>
    page_confidence (classifyPage (\<lambda>s. s) (Some example_url) []) = 0.1)"
proof -
  note ev = at_path_def example_url_def classifyPage_def Let_def example_lower example_nonempty
    example_wiki_site example_site example_path_tests example_title_tests
  have b1: "page_type (classifyPage (\<lambda>s. s) (Some (at_path (js ''/scp-001''))) []) = proposal_or_index \<and>
    page_confidence (classifyPage (\<lambda>s. s) (Some (at_path (js ''/scp-001''))) []) = 0.6"
    using classify_first_match [where urlObj = "Some (at_path (js ''/scp-001''))" and U = "\<lambda>s. s"
        and title = "[]"]
    by (simp add: ev)
  have b2: "page_type (classifyPage (\<lambda>s. s) (Some (at_path (js ''/1''))) []) = scp_article \<and>
    page_confidence (classifyPage (\<lambda>s. s) (Some (at_path (js ''/1''))) []) = 0.9"
    using classify_first_match [where urlObj = "Some (at_path (js ''/1''))" and U = "\<lambda>s. s"
        and title = "[]"]
    by (simp add: ev)
  have b3: "page_type (classifyPage (\<lambda>s. s) (Some (at_path (js ''/''))) (js ''scp-1'')) = scp_article \<and>
    page_confidence (classifyPage (\<lambda>s. s) (Some (at_path (js ''/''))) (js ''scp-1'')) = 0.6"
    using classify_first_match [where urlObj = "Some (at_path (js ''/''))" and U = "\<lambda>s. s"
        and title = "js ''scp-1''"]
    by (simp add: ev)
  have b4: "page_type (classifyPage (\<lambda>s. s) (Some (at_path (js ''/''))) (js ''series i'')) = series \<and>
    page_confidence (classifyPage (\<lambda>s. s) (Some (at_path (js ''/''))) (js ''series i'')) = 0.6"
    using classify_first_match [where urlObj = "Some (at_path (js ''/''))" and U = "\<lambda>s. s"
        and title = "js ''series i''"]
    by (simp add: ev)
  have b5: "page_type (classifyPage (\<lambda>s. s) (Some (at_path (js ''/hub''))) []) = hub \<and>
    page_confidence (classifyPage (\<lambda>s. s) (Some (at_path (js ''/hub''))) []) = 0.5"
    using classify_first_match [where urlObj = "Some (at_path (js ''/hub''))" and U = "\<lambda>s. s"
        and title = "[]"]
    by (simp add: ev)
  have b6: "page_type (classifyPage (\<lambda>s. s) (Some (at_path (js ''/''))) (js ''tale'')) = tale \<and>
    page_confidence (classifyPage (\<lambda>s. s) (Some (at_path (js ''/''))) (js ''tale'')) = 0.4"
    using classify_first_match [where urlObj = "Some (at_path (js ''/''))" and U = "\<lambda>s. s"
        and title = "js ''tale''"]
    by (simp add: ev)
  have b7: "page_type (classifyPage (\<lambda>s. s) (Some (at_path (js ''/''))) []) = non_scp \<and>
    page_confidence (classifyPage (\<lambda>s. s) (Some (at_path (js ''/''))) []) = 0.3"
    using classify_first_match [where urlObj = "Some (at_path (js ''/''))" and U = "\<lambda>s. s"
        and title = "[]"]
    by (simp add: ev)
  have b8: "page_type (classifyPage (\<lambda>s. s) (Some example_url) []) = unknown \<and>
    page_confidence (classifyPage (\<lambda>s. s) (Some example_url) []) = 0.1"
    using classify_first_match [where urlObj = "Some example_url" and U = "\<lambda>s. s"
        and title = "[]"]
    by (simp add: ev)
  from b1 b2 b3 b4 b5 b6 b7 b8 show ?thesis by blast
qed

section \<open>Deduplication\<close>

lemma first_best_snoc_other:
  assumes "first_best x seen" and "entity_key e \<noteq> entity_key x"
  shows "first_best x (seen @ [e])"
proof -
  from assms(1) obtain ys zs where s: "seen = ys @ x # zs"
    and a: "\<forall>y\<in>set ys. entity_key y = entity_key x \<longrightarrow> scoreEntity y < scoreEntity x"
    and b: "\<forall>z\<in>set zs. entity_key z = entity_key x \<longrightarrow> scoreEntity z \<le> scoreEntity x"
    unfolding first_best_def by blast
  have "seen @ [e] = ys @ x # (zs @ [e])" using s by simp
  moreover have "\<forall>z\<in>set (zs @ [e]). entity_key z = entity_key x \<longrightarrow> scoreEntity z \<le> scoreEntity x"
    using b assms(2) by auto
  ultimately show ?thesis unfolding first_best_def using a by blast
qed

lemma first_best_snoc_lower:
  assumes "first_best x seen" and "scoreEntity e \<le> scoreEntity x"
  shows "first_best x (seen @ [e])"
proof -
  from assms(1) obtain ys zs where s: "seen = ys @ x # zs"
    and a: "\<forall>y\<in>set ys. entity_key y = entity_key x \<longrightarrow> scoreEntity y < scoreEntity x"
    and b: "\<forall>z\<in>set zs. entity_key z = entity_key x \<longrightarrow> scoreEntity z \<le> scoreEntity x"
    unfolding first_best_def by blast
  have "seen @ [e] = ys @ x # (zs @ [e])" using s by simp
  moreover have "\<forall>z\<in>set (zs @ [e]). entity_key z = entity_key x \<longrightarrow> scoreEntity z \<le> scoreEntity x"
    using b assms(2) by auto
  ultimately show ?thesis unfolding first_best_def using a by blast
qed

lemma first_best_bound:
  assumes "first_best x seen" and "y \<in> set seen" and "entity_key y = entity_key x"
  shows "scoreEntity y \<le> scoreEntity x"
proof -
  from assms(1) obtain ys zs where s: "seen = ys @ x # zs"
    and a: "\<forall>y\<in>set ys. entity_key y = entity_key x \<longrightarrow> scoreEntity y < scoreEntity x"
    and b: "\<forall>z\<in>set zs. entity_key z = entity_key x \<longrightarrow> scoreEntity z \<le> scoreEntity x"
    unfolding first_best_def by blast
  from assms(2) s have "y \<in> set ys \<or> y = x \<or> y \<in> set zs" by auto
  with a b assms(3) show ?thesis by (auto simp: less_imp_le)
qed

lemma first_best_new:
  assumes "\<forall>y\<in>set seen. entity_key y = entity_key e \<longrightarrow> scoreEntity y < scoreEntity e"
  shows "first_best e (seen @ [e])"
  unfolding first_best_def using assms by (intro exI [of _ seen] exI [of _ "[]"]) simp

lemma dedupe_inv_step_new:
  assumes "dedupe_inv m seen" and "m (entity_key e) = None"
  shows "dedupe_inv (m(entity_key e \<mapsto> e)) (seen @ [e])"
proof -
  from assms have fresh: "entity_key e \<notin> entity_key ` set seen"
    by (simp add: dedupe_inv_def)
  then have "\<forall>y\<in>set seen. entity_key y = entity_key e \<longrightarrow> scoreEntity y < scoreEntity e"
    by (metis imageI)
  then have n: "first_best e (seen @ [e])" by (rule first_best_new)
  show ?thesis
    unfolding dedupe_inv_def
  proof (intro conjI allI impI)
    fix k
    show "((m(entity_key e \<mapsto> e)) k = None) = (k \<notin> entity_key ` set (seen @ [e]))"
      using assms(1) by (auto simp: dedupe_inv_def)
  next
    fix k x
    assume a: "(m(entity_key e \<mapsto> e)) k = Some x"
    show "entity_key x = k"
      using a assms(1) by (auto simp: dedupe_inv_def split: if_splits)
    show "first_best x (seen @ [e])"
    proof (cases "k = entity_key e")
      case True
      with a have "x = e" by simp
      with n show ?thesis by simp
    next
      case False
      with a have mk: "m k = Some x" by simp
      with assms(1) have kx: "entity_key x = k" and fb: "first_best x seen"
        by (simp_all add: dedupe_inv_def)
      from False kx have "entity_key e \<noteq> entity_key x" by simp
      with fb show ?thesis by (rule first_best_snoc_other)
    qed
  qed
qed

lemma dedupe_inv_step_replace:
  assumes "dedupe_inv m seen" and "m (entity_key e) = Some existing"
    and "scoreEntity e > scoreEntity existing"
  shows "dedupe_inv (m(entity_key e \<mapsto> e)) (seen @ [e])"
proof -
  from assms(1,2) have ex: "entity_key existing = entity_key e" "first_best existing seen"
    by (simp_all add: dedupe_inv_def)
  have "\<forall>y\<in>set seen. entity_key y = entity_key e \<longrightarrow> scoreEntity y < scoreEntity e"
  proof (intro ballI impI)
    fix y assume "y \<in> set seen" "entity_key y = entity_key e"
    with ex have "scoreEntity y \<le> scoreEntity existing"
      by (intro first_best_bound [of existing seen y]) simp_all
    with assms(3) show "scoreEntity y < scoreEntity e" by simp
  qed
  then have n: "first_best e (seen @ [e])" by (rule first_best_new)
  show ?thesis
    unfolding dedupe_inv_def
  proof (intro conjI allI impI)
    fix k
    show "((m(entity_key e \<mapsto> e)) k = None) = (k \<notin> entity_key ` set (seen @ [e]))"
      using assms(1) by (auto simp: dedupe_inv_def)
  next
    fix k x
    assume a: "(m(entity_key e \<mapsto> e)) k = Some x"
    show "entity_key x = k"
      using a assms(1) by (auto simp: dedupe_inv_def split: if_splits)
    show "first_best x (seen @ [e])"
    proof (cases "k = entity_key e")
      case True
      with a have "x = e" by simp
      with n show ?thesis by simp
    next
      case False
      with a have mk: "m k = Some x" by simp
      with assms(1) have kx: "entity_key x = k" and fb: "first_best x seen"
        by (simp_all add: dedupe_inv_def)
      from False kx have "entity_key e \<noteq> entity_key x" by simp
      with fb show ?thesis by (rule first_best_snoc_other)
    qed
  qed
qed

lemma dedupe_inv_step_keep:
  assumes "dedupe_inv m seen" and "m (entity_key e) = Some existing"
    and "\<not> scoreEntity e > scoreEntity existing"
  shows "dedupe_inv m (seen @ [e])"
proof -
  from assms(1,2) have ex: "entity_key existing = entity_key e" "first_best existing seen"
    by (simp_all add: dedupe_inv_def)
  from assms(1,2) have present: "entity_key e \<in> entity_key ` set seen"
    unfolding dedupe_inv_def by (metis option.distinct(1))
  show ?thesis
    unfolding dedupe_inv_def
  proof (intro conjI allI impI)
    fix k
    from assms(1) have "(m k = None) = (k \<notin> entity_key ` set seen)"
      by (simp add: dedupe_inv_def)
    with present show "(m k = None) = (k \<notin> entity_key ` set (seen @ [e]))"
      by auto
  next
    fix k x
    assume a: "m k = Some x"
    with assms(1) have kx: "entity_key x = k" and fb: "first_best x seen"
      by (simp_all add: dedupe_inv_def)
    show "entity_key x = k" by (rule kx)
    show "first_best x (seen @ [e])"
    proof (cases "k = entity_key e")
      case True
      with a assms(2) have "x = existing" by simp
      with fb assms(3) show ?thesis by (intro first_best_snoc_lower) simp_all
    next
      case False
      with kx have "entity_key e \<noteq> entity_key x" by simp
      with fb show ?thesis by (rule first_best_snoc_other)
    qed
  qed
qed

lemma dedupe_loop_inv:
  assumes "dedupe_inv (map_of byKey) seen"
  shows "dedupe_inv (map_of (dedupe_loop byKey es)) (seen @ es)"
  using assms
proof (induction es arbitrary: byKey seen)
  case Nil
  then show ?case by simp
next
  case (Cons e es)
  show ?case
  proof (cases "map_of byKey (entity_key e)")
    case None
    with Cons.prems have "dedupe_inv ((map_of byKey)(entity_key e \<mapsto> e)) (seen @ [e])"
      by (rule dedupe_inv_step_new)
    then have "dedupe_inv (map_of (AList.update (entity_key e) e byKey)) (seen @ [e])"
      by (simp add: update_conv')
    from Cons.IH [OF this] None show ?thesis by simp
  next
    case (Some existing)
    show ?thesis
    proof (cases "scoreEntity e > scoreEntity existing")
      case True
      with Cons.prems Some
      have "dedupe_inv ((map_of byKey)(entity_key e \<mapsto> e)) (seen @ [e])"
        by (intro dedupe_inv_step_replace)
      then have "dedupe_inv (map_of (AList.update (entity_key e) e byKey)) (seen @ [e])"
        by (simp add: update_conv')
      from Cons.IH [OF this] Some True show ?thesis by simp
    next
      case False
      with Cons.prems Some have "dedupe_inv (map_of byKey) (seen @ [e])"
        by (intro dedupe_inv_step_keep)
      from Cons.IH [OF this] Some False show ?thesis by simp
    qed
  qed
qed

lemma dedupe_loop_distinct:
  assumes "distinct (map fst byKey)"
  shows "distinct (map fst (dedupe_loop byKey es))"
  using assms
  by (induction es arbitrary: byKey) (auto simp: distinct_update split: option.splits)

lemma dedupe_keys_are_first:
  assumes "dedupe_inv (map_of byKey) xs" and "distinct (map fst byKey)"
  shows "map entity_key (map snd byKey) = map fst byKey"
proof -
  have "entity_key (snd p) = fst p" if "p \<in> set byKey" for p
  proof -
    from that have "(fst p, snd p) \<in> set byKey" by simp
    with assms(2) have "map_of byKey (fst p) = Some (snd p)" by simp
    with assms(1) show ?thesis by (simp add: dedupe_inv_def)
  qed
  then show ?thesis by simp
qed

lemma dedupeEntities_facts:
  "distinct (map entity_key (dedupeEntities xs))"
  "entity_key ` set (dedupeEntities xs) = entity_key ` set xs"
  "\<forall>e\<in>set (dedupeEntities xs). first_best e xs"
proof -
  let ?r = "dedupe_loop [] xs"
  have "dedupe_inv (map_of []) []" by (simp add: dedupe_inv_def)
  from dedupe_loop_inv [OF this, of xs] have inv: "dedupe_inv (map_of ?r) xs" by simp
  have d: "distinct (map fst ?r)" by (rule dedupe_loop_distinct) simp
  have k: "map entity_key (map snd ?r) = map fst ?r" using inv d by (rule dedupe_keys_are_first)
  show "distinct (map entity_key (dedupeEntities xs))"
    unfolding dedupeEntities_def k by (rule d)
  have "fst ` set ?r = entity_key ` set xs"
  proof (intro set_eqI)
    fix x
    have "(x \<in> fst ` set ?r) = (map_of ?r x \<noteq> None)" by (simp add: map_of_eq_None_iff)
    also have "\<dots> = (x \<in> entity_key ` set xs)" using inv by (simp add: dedupe_inv_def)
    finally show "(x \<in> fst ` set ?r) = (x \<in> entity_key ` set xs)" .
  qed
  moreover have "entity_key ` set (dedupeEntities xs) = set (map entity_key (map snd ?r))"
    by (simp only: dedupeEntities_def set_map)
  moreover have "set (map fst ?r) = fst ` set ?r" by (simp only: set_map)
  ultimately show "entity_key ` set (dedupeEntities xs) = entity_key ` set xs"
    by (simp only: k)
  show "\<forall>e\<in>set (dedupeEntities xs). first_best e xs"
  proof
    fix e assume "e \<in> set (dedupeEntities xs)"
    then obtain k where "(k, e) \<in> set ?r" by (auto simp: dedupeEntities_def)
    with d have "map_of ?r k = Some e" by simp
    with inv show "first_best e xs" by (simp add: dedupe_inv_def)
  qed
qed


lemma scoreEntity_tiers:
  "scoreEntity e = (case ent_confidence e of high \<Rightarrow> 3 | medium \<Rightarrow> 2 | low \<Rightarrow> 1)
                   + (if ent_context e = link then 1 else 0)"
  by (cases "ent_confidence e") (simp_all add: scoreEntity_def)

lemma dedupe_pair_same_key:
  assumes "entity_key a = entity_key b"
  shows "dedupeEntities [a, b] = [if scoreEntity b > scoreEntity a then b else a]"
  using assms by (simp add: dedupeEntities_def)

text \<open>
  Claim C5, amended. For every candidate list, \<open>dedupeEntities\<close> returns exactly one
  entity for each key that occurs, where the key is the id, a bar and the URL (nothing
  for a missing URL); the entity kept for a key is a candidate of the list such that every
  earlier candidate with that key scores strictly lower and no later one scores higher,
  where the score is 3, 2 or 1 for the confidence \<open>high\<close>, \<open>medium\<close> or \<open>low\<close>, plus 1 in
  the context \<open>link\<close>. In particular two link candidates with the same URL and the same
  id, at least one of them of confidence \<open>high\<close>, dedupe to exactly one entity, of
  confidence \<open>high\<close>.
\<close>

theorem dedupe_keeps_first_best:
  "distinct (map entity_key (dedupeEntities xs)) \<and>
   entity_key ` set (dedupeEntities xs) = entity_key ` set xs \<and>
   (\<forall>e\<in>set (dedupeEntities xs).
      \<exists>ys zs. xs = ys @ e # zs \<and>
        (\<forall>y\<in>set ys. entity_key y = entity_key e \<longrightarrow> scoreEntity y < scoreEntity e) \<and>
        (\<forall>z\<in>set zs. entity_key z = entity_key e \<longrightarrow> scoreEntity z \<le> scoreEntity e)) \<and>
   (\<forall>e. entity_key e = ent_id e @ js ''|'' @ (case ent_url e of None \<Rightarrow> [] | Some u \<Rightarrow> u)) \<and>
   (\<forall>e. scoreEntity e = (case ent_confidence e of high \<Rightarrow> 3 | medium \<Rightarrow> 2 | low \<Rightarrow> 1)
                          + (if ent_context e = link then 1 else 0)) \<and>
   (ent_context a = link \<and> ent_context b = link \<and> ent_id a = ent_id b \<and> ent_url a = ent_url b \<and>
    (ent_confidence a = high \<or> ent_confidence b = high)
      \<longrightarrow> (\<exists>e. dedupeEntities [a, b] = [e] \<and> ent_confidence e = high))"
proof -
  have k: "entity_key e = ent_id e @ js ''|'' @ (case ent_url e of None \<Rightarrow> [] | Some u \<Rightarrow> u)" for e
    by (simp add: entity_key_def or_null_def split: option.splits)
  have p: "\<exists>e. dedupeEntities [a, b] = [e] \<and> ent_confidence e = high"
    if "ent_context a = link" "ent_context b = link" "ent_id a = ent_id b" "ent_url a = ent_url b"
      "ent_confidence a = high \<or> ent_confidence b = high"
  proof -
    from that have "entity_key a = entity_key b" by (simp add: entity_key_def)
    then have d: "dedupeEntities [a, b] = [if scoreEntity b > scoreEntity a then b else a]"
      by (rule dedupe_pair_same_key)
    from that(1,2,5) show ?thesis
      unfolding d
      by (cases "ent_confidence a"; cases "ent_confidence b") (simp_all add: scoreEntity_def)
  qed
  from dedupeEntities_facts [of xs] k scoreEntity_tiers p show ?thesis
    unfolding first_best_def by blast
qed

text \<open>
  Claim C5 as stated fails in its last part: two link candidates with the same URL and
  the same id but different visible text, both found through the link text and so of
  confidence \<open>medium\<close>, dedupe to one entity of confidence \<open>medium\<close>.
\<close>

theorem two_medium_links_stay_medium:
  "ent_context (makeEntity (js ''scp-173'') scp link (Some (js ''https://example.com/foo''))
                  (Some (js ''SCP-173'')) (Some 1) medium) = link \<and>
   dedupeEntities
     [makeEntity (js ''scp-173'') scp link (Some (js ''https://example.com/foo''))
        (Some (js ''SCP-173'')) (Some 1) medium,
      makeEntity (js ''scp-173'') scp link (Some (js ''https://example.com/foo''))
        (Some (js ''scp 173'')) (Some 2) medium]
     = [makeEntity (js ''scp-173'') scp link (Some (js ''https://example.com/foo''))
          (Some (js ''SCP-173'')) (Some 1) medium] \<and>
   ent_confidence (makeEntity (js ''scp-173'') scp link (Some (js ''https://example.com/foo''))
                     (Some (js ''SCP-173'')) (Some 1) medium) = medium"
  by (simp add: dedupeEntities_def makeEntity_def entity_key_def or_null_def scoreEntity_def js_def)

text \<open>
  Claim C5, amended, on an inline mention followed by two links to the same URL with
  different text.
\<close>

theorem dedupe_keeps_first_best_witness:
  "dedupeEntities
     [makeEntity (js ''scp-173'') scp inline None (Some (js ''SCP-173'')) (Some 3) low,
      makeEntity (js ''scp-173'') scp link (Some (js ''https://example.com/scp-173''))
        (Some (js ''SCP-173'')) (Some 1) high,
      makeEntity (js ''scp-173'') scp link (Some (js ''https://example.com/scp-173''))
        (Some (js ''Peanut'')) (Some 2) high]
     = [makeEntity (js ''scp-173'') scp inline None (Some (js ''SCP-173'')) (Some 3) low,
        makeEntity (js ''scp-173'') scp link (Some (js ''https://example.com/scp-173''))
          (Some (js ''SCP-173'')) (Some 1) high] \<and>
   (\<exists>e. dedupeEntities
          [makeEntity (js ''scp-173'') scp link (Some (js ''https://example.com/scp-173''))
             (Some (js ''SCP-173'')) (Some 1) high,
           makeEntity (js ''scp-173'') scp link (Some (js ''https://example.com/scp-173''))
             (Some (js ''Peanut'')) (Some 2) high] = [e] \<and> ent_confidence e = high)"
proof -
  let ?a = "makeEntity (js ''scp-173'') scp link (Some (js ''https://example.com/scp-173''))
             (Some (js ''SCP-173'')) (Some 1) high"
  let ?b = "makeEntity (js ''scp-173'') scp link (Some (js ''https://example.com/scp-173''))
             (Some (js ''Peanut'')) (Some 2) high"
  let ?c = "makeEntity (js ''scp-173'') scp inline None (Some (js ''SCP-173'')) (Some 3) low"
  have h: "ent_context ?a = link \<and> ent_context ?b = link \<and> ent_id ?a = ent_id ?b \<and>
           ent_url ?a = ent_url ?b \<and> (ent_confidence ?a = high \<or> ent_confidence ?b = high)"
    by (simp add: makeEntity_def)
  have e: "dedupeEntities [?c, ?a, ?b] = [?c, ?a]"
    by (simp add: dedupeEntities_def makeEntity_def entity_key_def or_null_def scoreEntity_def js_def)
  from dedupe_keeps_first_best [of "[?c, ?a, ?b]" ?a ?b] h e show ?thesis by blast
qed

section \<open>Accessors and aliasing\<close>

lemma owned_lt:
  assumes "wf_state D" and "r \<in> set (owned D)"
  shows "r < length (heap D)"
  using assms by (auto simp: wf_state_def owned_def list_all_iff split: option.splits)

lemma owned_append:
  assumes "wf_state D"
  shows "owned (D\<lparr>heap := heap D @ xs\<rparr>) = owned D"
  using assms by (simp add: owned_def wf_state_def array_at_append)

lemma owned_fields [simp]:
  "owned (D\<lparr>cfg := c\<rparr>) = owned D" "owned (D\<lparr>timer := b\<rparr>) = owned D"
  "owned (D\<lparr>microtask := b\<rparr>) = owned D" "owned (D\<lparr>emitter := E\<rparr>) = owned D"
  "owned (D\<lparr>emitted := es\<rparr>) = owned D" "owned (D\<lparr>handled := hs\<rparr>) = owned D"
  "owned (D\<lparr>disposed := b\<rparr>) = owned D" "owned (D\<lparr>observer := ob\<rparr>) = owned D"
  by (simp_all add: owned_def)

lemma payloads_fields [simp]:
  "payloads (D\<lparr>cfg := c\<rparr>) D' = payloads D D'" "payloads (D\<lparr>timer := b\<rparr>) D' = payloads D D'"
  "payloads D (D'\<lparr>cfg := c\<rparr>) = payloads D D'" "payloads D (D'\<lparr>timer := b\<rparr>) = payloads D D'"
  "payloads D (D'\<lparr>microtask := b\<rparr>) = payloads D D'"
  "payloads D (D'\<lparr>emitter := E\<rparr>) = payloads D D'"
  "payloads D (D'\<lparr>handled := hs\<rparr>) = payloads D D'"
  "payloads D (D'\<lparr>disposed := b\<rparr>) = payloads D D'"
  "payloads D (D'\<lparr>observer := ob\<rparr>) = payloads D D'"
  by (simp_all add: payloads_def)

lemma payloads_same: "emitted D' = emitted D \<Longrightarrow> payloads D D' = []"
  by (simp add: payloads_def)

lemma wf_state_fields [simp]:
  "wf_state (D\<lparr>disposed := b\<rparr>) = wf_state D" "wf_state (D\<lparr>observer := ob\<rparr>) = wf_state D"
  by (simp_all add: wf_state_def split: option.splits)

lemma frame_fields [simp]:
  "frame (D\<lparr>cfg := c\<rparr>) D' = frame D D'" "frame (D\<lparr>timer := b\<rparr>) D' = frame D D'"
  "frame D (D'\<lparr>cfg := c\<rparr>) = frame D D'" "frame D (D'\<lparr>timer := b\<rparr>) = frame D D'"
  "frame D (D'\<lparr>microtask := b\<rparr>) = frame D D'"
  "frame D (D'\<lparr>emitter := E\<rparr>) = frame D D'"
  "frame D (D'\<lparr>handled := hs\<rparr>) = frame D D'"
  "frame D (D'\<lparr>disposed := b\<rparr>) = frame D D'"
  "frame D (D'\<lparr>observer := ob\<rparr>) = frame D D'"
  by (simp_all add: frame_def)

lemma frame_refl:
  assumes "wf_state D"
  shows "frame D D"
  using assms by (simp add: frame_def payloads_same)

lemma frame_heap_append:
  assumes "wf_state D"
  shows "frame D (D\<lparr>heap := heap D @ xs\<rparr>)"
  using assms by (simp add: frame_def payloads_same owned_append wf_state_heap_append)

lemma owned_set_state:
  "set (owned (set_state pg ents now D)) \<subseteq> {r. length (heap D) \<le> r}"
  by (auto simp: owned_def set_state_def Let_def array_at_def nth_append)

lemma frame_set_state: "frame D (set_state pg ents now D)"
proof -
  have e: "emitted (set_state pg ents now D) = emitted D"
    by (simp add: set_state_def Let_def)
  have l: "length (heap D) \<le> length (heap (set_state pg ents now D))"
    by (simp add: set_state_def Let_def)
  show ?thesis
    using owned_set_state [of pg ents now D] l
    by (auto simp: frame_def payloads_same [OF e] wf_state_set_state)
qed

lemma frame_emit_update:
  assumes "wf_state S" and "emitted S = emitted D" and "frame D S"
  shows "frame D (snd (emit_update R S))"
proof -
  let ?D' = "snd (emit_update R S)"
  from assms(1) have b: "state_entities S < length (heap S)" by (simp add: wf_state_def)
  let ?xs = "[heap S ! state_page S, heap S ! state_entities S,
      OResults (length (heap S)) (Suc (length (heap S))) (state_lastUpdatedAt S)]"
  have o: "owned ?D' = owned S"
    using owned_append [OF assms(1), of ?xs] by (simp add: emit_update_result [OF b])
  have l: "length (heap ?D') = length (heap S) + 3"
    by (simp add: emit_update_result [OF b])
  have w: "wf_state ?D'" using assms(1) by (rule wf_state_emit_update)
  have p: "length (heap S) \<le> r \<and> r < length (heap ?D')" if "r \<in> set (payloads D ?D')" for r
    using that
    by (auto simp: emit_update_result [OF b] payloads_def assms(2) handed_out_def nth_append
        split: if_splits)
  have q: "r \<notin> set (owned ?D')" if "r \<in> set (payloads D ?D')" for r
  proof
    assume "r \<in> set (owned ?D')"
    then have "r < length (heap S)" using owned_lt [OF assms(1)] o by simp
    with p [OF that] show False by simp
  qed
  from assms(3) show ?thesis
    using w l o p q by (auto simp: frame_def)
qed

lemma compute_try_shape:
  "snd (compute_try R now D) = D \<or>
   (\<exists>pg ents. snd (compute_try R now D) = set_state pg ents now D \<or>
              snd (compute_try R now D) = snd (emit_update R (set_state pg ents now D)))"
  by (auto simp: compute_try_def Let_def split: option.splits sum.splits)

lemma frame_compute_try:
  assumes "wf_state D"
  shows "frame D (snd (compute_try R now D))"
proof -
  have e: "emitted (set_state pg ents now D) = emitted D" for pg ents
    by (simp add: set_state_def Let_def)
  have "frame D (snd (emit_update R (set_state pg ents now D)))" for pg ents
    using wf_state_set_state e frame_set_state by (rule frame_emit_update)
  with compute_try_shape [of R now D] frame_refl [OF assms] frame_set_state
  show ?thesis by metis
qed

lemma frame_compute:
  assumes "wf_state D"
  shows "frame D (snd (compute R now D))"
  using frame_compute_try [OF assms, of R now] frame_refl [OF assms]
  by (auto simp: compute_def split: prod.splits option.splits)

lemma frame_getResults:
  assumes "wf_state D"
  shows "frame D (snd (getResults D))"
proof -
  from assms have b: "state_entities D < length (heap D)" by (simp add: wf_state_def)
  show ?thesis using assms by (simp add: getResults_heap [OF b] frame_heap_append)
qed

lemma frame_step:
  assumes "wf_state D"
  shows "frame D (step R now ev D)"
proof (cases ev)
  case Refresh
  then show ?thesis
    using frame_compute [OF assms] by (simp add: step_def refresh_def split: option.splits)
next
  case (Configure f)
  have "wf_state (D\<lparr>cfg := f (cfg D)\<rparr>)" using assms by simp
  from frame_compute [OF this, of R now] Configure show ?thesis
    by (simp add: step_def refresh_def split: option.splits)
next
  case Dispose
  then show ?thesis
    using frame_refl [OF assms] by (simp add: step_def dispose_def Let_def split: option.splits)
next
  case (On name cb)
  then show ?thesis using frame_refl [OF assms] by (simp add: step_def)
next
  case (Off name cb)
  then show ?thesis using frame_refl [OF assms] by (simp add: step_def)
next
  case GetResults
  then show ?thesis using frame_getResults [OF assms] by (simp add: step_def)
next
  case TimerFires
  have "wf_state (D\<lparr>timer := False\<rparr>)" using assms by simp
  from frame_compute [OF this, of R now] TimerFires frame_refl [OF assms] show ?thesis
    by (simp add: step_def)
next
  case MicrotaskRuns
  then show ?thesis
    using frame_refl [OF assms] by (simp add: step_def scheduleCompute_def)
next
  case MutationSeen
  then show ?thesis
    using frame_refl [OF assms] by (simp add: step_def scheduleCompute_def)
qed

lemma apart_frame:
  assumes "apart held D" and "frame D D'"
  shows "apart (held @ payloads D D') D'"
  using assms by (fastforce simp: apart_def frame_def)

lemma apart_heap_append:
  assumes "apart held D" and "\<forall>r\<in>set new. length (heap D) \<le> r \<and> r < length (heap D) + length xs"
  shows "apart (held @ new) (D\<lparr>heap := heap D @ xs\<rparr>)"
proof -
  from assms(1) have w: "wf_state D" by (simp add: apart_def)
  have "r \<notin> set (owned D)" if "r \<in> set new" for r
    using owned_lt [OF w, of r] assms(2) that by auto
  with assms show ?thesis
    by (auto simp: apart_def owned_append [OF w] wf_state_heap_append [OF w])
qed

lemma state_view_write:
  assumes "wf_state D" and "r \<notin> set (owned D)"
  shows "state_view (D\<lparr>heap := (heap D)[r := ob]\<rparr>) = state_view D"
    and "owned (D\<lparr>heap := (heap D)[r := ob]\<rparr>) = owned D"
    and "wf_state (D\<lparr>heap := (heap D)[r := ob]\<rparr>)"
proof -
  from assms(2) have p: "r \<noteq> state_page D" and e: "r \<noteq> state_entities D"
    by (simp_all add: owned_def)
  have a: "array_at ((heap D)[r := ob]) (state_entities D) = array_at (heap D) (state_entities D)"
    using e by (simp add: array_at_def)
  show o: "owned (D\<lparr>heap := (heap D)[r := ob]\<rparr>) = owned D"
    by (simp add: owned_def a)
  show "wf_state (D\<lparr>heap := (heap D)[r := ob]\<rparr>)"
    using assms(1) by (simp add: wf_state_def a split: option.splits)
  have "entities_at ((heap D)[r := ob]) (state_entities D) = entities_at (heap D) (state_entities D)"
  proof (cases "array_at (heap D) (state_entities D)")
    case None
    then show ?thesis by (simp add: entities_at_def a)
  next
    case (Some rs)
    with assms(2) have n: "r \<notin> set rs" by (simp add: owned_def)
    have "entity_at ((heap D)[r := ob]) x = entity_at (heap D) x" if "x \<in> set rs" for x
    proof -
      from that n have "x \<noteq> r" by auto
      then show ?thesis by (simp add: entity_at_def)
    qed
    then have "map (entity_at ((heap D)[r := ob])) rs = map (entity_at (heap D)) rs"
      by simp
    with Some show ?thesis by (simp add: entities_at_def a)
  qed
  then show "state_view (D\<lparr>heap := (heap D)[r := ob]\<rparr>) = state_view D"
    using p by (simp add: state_view_def page_at_def)
qed

lemma apart_write:
  assumes "apart held D" and "target m \<in> set held"
  shows "apart held (D\<lparr>heap := apply_mutation (heap D) m\<rparr>)"
    and "state_view (D\<lparr>heap := apply_mutation (heap D) m\<rparr>) = state_view D"
proof -
  obtain r ob where m: "m = Write r ob" by (cases m)
  from assms m have w: "wf_state D" and r: "r < length (heap D)" "r \<notin> set (owned D)"
    by (auto simp: apart_def)
  note s = state_view_write [OF w r(2), of ob]
  from assms(1) show "apart held (D\<lparr>heap := apply_mutation (heap D) m\<rparr>)"
    by (simp add: m r apart_def s)
  show "state_view (D\<lparr>heap := apply_mutation (heap D) m\<rparr>) = state_view D"
    by (simp add: m r s)
qed

lemma apart_accessors:
  assumes "apart held D"
  shows "apart (fst (caller_do R Call_getResults (held, D))) (snd (caller_do R Call_getResults (held, D)))"
    and "apart (fst (caller_do R Call_getEntities (held, D))) (snd (caller_do R Call_getEntities (held, D)))"
    and "apart (fst (caller_do R Call_getPageClassification (held, D)))
           (snd (caller_do R Call_getPageClassification (held, D)))"
proof -
  from assms have w: "wf_state D" by (simp add: apart_def)
  then have b: "state_entities D < length (heap D)" by (simp add: wf_state_def)
  show "apart (fst (caller_do R Call_getResults (held, D))) (snd (caller_do R Call_getResults (held, D)))"
    using apart_heap_append [OF assms, where new = "[length (heap D) + 2, length (heap D), Suc (length (heap D))]"
        and xs = "[heap D ! state_page D, heap D ! state_entities D,
      OResults (length (heap D)) (Suc (length (heap D))) (state_lastUpdatedAt D)]"]
    by (simp add: getResults_heap [OF b] handed_out_def nth_append)
  show "apart (fst (caller_do R Call_getEntities (held, D))) (snd (caller_do R Call_getEntities (held, D)))"
    using apart_heap_append [OF assms, where new = "[length (heap D)]"
        and xs = "[heap D ! state_entities D]"]
    by (simp add: getEntities_def)
  show "apart (fst (caller_do R Call_getPageClassification (held, D)))
           (snd (caller_do R Call_getPageClassification (held, D)))"
    using apart_heap_append [OF assms, where new = "[length (heap D)]"
        and xs = "[heap D ! state_page D]"]
    by (simp add: getPageClassification_def)
qed

lemma apart_caller_do:
  assumes "apart held D" and "writes_held s held"
  shows "apart (fst (caller_do R s (held, D))) (snd (caller_do R s (held, D)))"
proof (cases s)
  case (Host now ev)
  from assms(1) have "wf_state D" by (simp add: apart_def)
  then have "frame D (step R now ev D)" by (rule frame_step)
  with assms(1) have "apart (held @ payloads D (step R now ev D)) (step R now ev D)"
    by (rule apart_frame)
  with Host show ?thesis by (simp add: Let_def)
next
  case Call_getResults
  with apart_accessors(1) [OF assms(1)] show ?thesis by simp
next
  case Call_getEntities
  with apart_accessors(2) [OF assms(1)] show ?thesis by simp
next
  case Call_getPageClassification
  with apart_accessors(3) [OF assms(1)] show ?thesis by simp
next
  case (Caller_write m)
  with assms(2) have "target m \<in> set held" by simp
  with assms(1) have "apart held (D\<lparr>heap := apply_mutation (heap D) m\<rparr>)" by (rule apart_write)
  with Caller_write show ?thesis by simp
qed

lemma view_caller_do:
  assumes "apart held D" and "writes_held s held" and "no_host s"
  shows "state_view (snd (caller_do R s (held, D))) = state_view D"
proof (cases s)
  case (Host now ev)
  with assms(3) show ?thesis by simp
next
  case Call_getResults
  from assms(1) have w: "wf_state D" by (simp add: apart_def)
  then have b: "state_entities D < length (heap D)" by (simp add: wf_state_def)
  from Call_getResults show ?thesis
    by (simp add: getResults_heap [OF b] state_view_heap_append [OF w])
next
  case Call_getEntities
  from assms(1) have w: "wf_state D" by (simp add: apart_def)
  from Call_getEntities show ?thesis
    by (simp add: getEntities_def state_view_heap_append [OF w])
next
  case Call_getPageClassification
  from assms(1) have w: "wf_state D" by (simp add: apart_def)
  from Call_getPageClassification show ?thesis
    by (simp add: getPageClassification_def state_view_heap_append [OF w])
next
  case (Caller_write m)
  with assms(2) have "target m \<in> set held" by simp
  with assms(1) have "state_view (D\<lparr>heap := apply_mutation (heap D) m\<rparr>) = state_view D"
    by (rule apart_write)
  with Caller_write show ?thesis by simp
qed

lemma apart_caller:
  assumes "apart (fst st) (snd st)" and "writes_returned R ss st"
  shows "apart (fst (caller R ss st)) (snd (caller R ss st))"
  using assms
proof (induction ss arbitrary: st)
  case Nil
  then show ?case by simp
next
  case (Cons s ss)
  obtain held D where st: "st = (held, D)" by (cases st)
  from Cons.prems st have a: "apart held D" and h: "writes_held s held"
    and r: "writes_returned R ss (caller_do R s (held, D))" by simp_all
  from a h have "apart (fst (caller_do R s (held, D))) (snd (caller_do R s (held, D)))"
    by (rule apart_caller_do)
  from Cons.IH [OF this r] st show ?case by simp
qed

lemma view_caller:
  assumes "apart (fst st) (snd st)" and "writes_returned R ss st" and "list_all no_host ss"
  shows "state_view (snd (caller R ss st)) = state_view (snd st)"
  using assms
proof (induction ss arbitrary: st)
  case Nil
  then show ?case by simp
next
  case (Cons s ss)
  obtain held D where st: "st = (held, D)" by (cases st)
  from Cons.prems st have a: "apart held D" and h: "writes_held s held"
    and r: "writes_returned R ss (caller_do R s (held, D))"
    and n: "no_host s" and ns: "list_all no_host ss" by simp_all
  from a h have a': "apart (fst (caller_do R s (held, D))) (snd (caller_do R s (held, D)))"
    by (rule apart_caller_do)
  from a h n have v: "state_view (snd (caller_do R s (held, D))) = state_view D"
    by (rule view_caller_do)
  from Cons.IH [OF a' r ns] v st show ?case by simp
qed

lemma writes_returned_append:
  "writes_returned R (xs @ ys) st =
     (writes_returned R xs st \<and> writes_returned R ys (caller R xs st))"
  by (induction xs arbitrary: st) simp_all

lemma apart_createDetector: "apart [] (createDetector R c)"
  by (simp add: apart_def wf_state_createDetector)

lemma accessor_views:
  assumes "wf_state D"
  shows "page_at (heap (snd (getPageClassification D))) (fst (getPageClassification D))
           = fst (state_view D)"
    and "entities_at (heap (snd (getEntities D))) (fst (getEntities D))
           = fst (snd (state_view D))"
proof -
  from assms have p: "state_page D < length (heap D)" and e: "state_entities D < length (heap D)"
    by (simp_all add: wf_state_def)
  show "page_at (heap (snd (getPageClassification D))) (fst (getPageClassification D))
           = fst (state_view D)"
    using p by (simp add: getPageClassification_def state_view_def page_at_def)
  show "entities_at (heap (snd (getEntities D))) (fst (getEntities D))
           = fst (snd (state_view D))"
  proof (cases "array_at (heap D) (state_entities D)")
    case None
    with e show ?thesis
      by (simp add: getEntities_def state_view_def entities_at_def array_at_def)
  next
    case (Some rs)
    with assms have "\<forall>x\<in>set rs. x < length (heap D)" by (simp add: wf_state_def list_all_iff)
    then have "map (entity_at (heap D @ [heap D ! state_entities D])) rs = map (entity_at (heap D)) rs"
      by (simp add: entity_at_append)
    with Some e show ?thesis
      by (simp add: getEntities_def state_view_def entities_at_def array_at_def)
  qed
qed

lemma results_view_getResults:
  assumes "wf_state D"
  shows "results_view (heap (snd (getResults D))) (fst (getResults D)) = Some (state_view D)"
proof -
  from assms have b: "state_entities D < length (heap D)" by (simp add: wf_state_def)
  have "results_view (heap (snd (emit_update R D))) (length (heap D) + 2)
          = Some (state_view D)" for R
    using assms by (rule results_view_emit_update)
  then show ?thesis by (simp add: emit_update_result [OF b] getResults_heap [OF b])
qed

text \<open>
  Claim C9, amended. Take any course of events, accessor calls and writes from
  \<open>createDetector\<close> on, and then any sequence of accessor calls and writes by the caller
  with no event of the host in it, so that no \<open>compute\<close> intervenes. If every write, in
  both parts, goes to an object whose reference an accessor has returned (the page copy
  from \<open>getPageClassification\<close>, the array copy from \<open>getEntities\<close>, the results object from
  \<open>getResults\<close> and the page copy and array copy in its fields) or that a listener was
  given as a payload, then the state after the second part is the state before it, and
  \<open>getResults\<close>, \<open>getPageClassification\<close> and \<open>getEntities\<close> called then show the same page,
  entities and \<open>lastUpdatedAt\<close>. Writes to the entity objects inside a returned array are
  not covered: those objects are shared with the state.
\<close>

theorem returned_copies_are_private:
  "(let st = caller R steps ([], createDetector R c);
        D = snd st;
        D2 = snd (caller R calls st)
    in writes_returned R (steps @ calls) ([], createDetector R c) \<and> list_all no_host calls
       \<longrightarrow> state_view D2 = state_view D \<and>
           results_view (heap (snd (getResults D2))) (fst (getResults D2)) = Some (state_view D) \<and>
           page_at (heap (snd (getPageClassification D2))) (fst (getPageClassification D2))
             = fst (state_view D) \<and>
           entities_at (heap (snd (getEntities D2))) (fst (getEntities D2))
             = fst (snd (state_view D)))"
proof -
  let ?init = "([], createDetector R c)"
  let ?st = "caller R steps ?init"
  let ?st2 = "caller R calls ?st"
  have goal: "state_view (snd ?st2) = state_view (snd ?st) \<and>
      results_view (heap (snd (getResults (snd ?st2)))) (fst (getResults (snd ?st2)))
        = Some (state_view (snd ?st)) \<and>
      page_at (heap (snd (getPageClassification (snd ?st2)))) (fst (getPageClassification (snd ?st2)))
        = fst (state_view (snd ?st)) \<and>
      entities_at (heap (snd (getEntities (snd ?st2)))) (fst (getEntities (snd ?st2)))
        = fst (snd (state_view (snd ?st)))"
    if w: "writes_returned R (steps @ calls) ?init" and n: "list_all no_host calls"
  proof -
    from w have w1: "writes_returned R steps ?init" and w2: "writes_returned R calls ?st"
      by (simp_all add: writes_returned_append)
    have "apart (fst ?init) (snd ?init)" by (simp add: apart_createDetector)
    then have a1: "apart (fst ?st) (snd ?st)" using w1 by (rule apart_caller)
    then have a2: "apart (fst ?st2) (snd ?st2)" using w2 by (rule apart_caller)
    then have wf2: "wf_state (snd ?st2)" by (simp add: apart_def)
    have v: "state_view (snd ?st2) = state_view (snd ?st)"
      using a1 w2 n by (rule view_caller)
    show ?thesis
      using v results_view_getResults [OF wf2] accessor_views [OF wf2] by simp
  qed
  then show ?thesis by (simp add: Let_def)
qed

lemma scanned_detector_fields:
  "heap scanned_detector =
     [OPage initial_page, OArray [],
      OPage (classifyPage (\<lambda>s. s) (Some example_url) (js ''Example'')),
      OEntity example_entity, OArray [3],
      OPage (classifyPage (\<lambda>s. s) (Some example_url) (js ''Example'')),
      OArray [3], OResults 5 6 5]"
  "state_page scanned_detector = 2" "state_entities scanned_detector = 4"
  "state_lastUpdatedAt scanned_detector = 5" "emitted scanned_detector = []"
proof -
  let ?c = "example_config example_document"
  let ?D = "createDetector example_runtime ?c"
  let ?pg = "classifyPage (\<lambda>s. s) (Some example_url) (js ''Example'')"
  have u: "current_url example_runtime None example_document = example_url"
    by (simp add: example_current_url example_config_fields example_doc_fields)
  have r: "rt_lower example_runtime = (\<lambda>s. s)" by (simp add: example_runtime_def)
  have ct: "compute_try example_runtime 5 ?D =
      emit_update example_runtime (set_state ?pg (dedupeEntities ([] @ [example_entity])) 5 ?D)"
    using compute_try_scanned [where R = example_runtime and D = ?D and d = example_document
        and lks = "[]" and ins = "[example_entity]" and now = 5]
    by (simp add: example_detector example_config_fields u example_hostname isAllowedDomain_def
        example_scanLinks example_scanInline logger_debug_def example_entity_def r
        example_doc_fields)
  let ?S = "set_state ?pg [example_entity] 5 ?D"
  have S: "heap ?S = [OPage initial_page, OArray [], OPage ?pg, OEntity example_entity, OArray [3]]"
    "state_page ?S = 2" "state_entities ?S = 4" "state_lastUpdatedAt ?S = 5"
    "emitted ?S = []" "emitter ?S = \<lparr>listeners = []\<rparr>"
    by (simp_all add: set_state_def Let_def example_detector)
  have se: "state_entities ?S < length (heap ?S)" by (simp add: S)
  have f: "fst (emit_update example_runtime ?S) = None" by (rule emit_update_no_exception)
  have "compute example_runtime 5 ?D = (None, snd (emit_update example_runtime ?S))"
    using example_detector(1) ct [unfolded dedupe_single append_Nil] f by (rule compute_completes)
  then have c: "scanned_detector = snd (emit_update example_runtime ?S)"
    by (simp add: scanned_detector_def)
  show "heap scanned_detector =
     [OPage initial_page, OArray [], OPage ?pg, OEntity example_entity, OArray [3],
      OPage ?pg, OArray [3], OResults 5 6 5]"
    "state_page scanned_detector = 2" "state_entities scanned_detector = 4"
    "state_lastUpdatedAt scanned_detector = 5" "emitted scanned_detector = []"
    by (simp_all add: c emit_update_result [OF se] S listeners_of_def)
qed

lemma refresh_scanned:
  "step example_runtime 5 Refresh (createDetector example_runtime (example_config example_document))
     = scanned_detector"
  by (simp add: step_def refresh_def scanned_detector_def split: option.splits)

lemma scanned_view:
  "state_view scanned_detector
     = (Some (classifyPage (\<lambda>s. s) (Some example_url) (js ''Example'')),
        Some [Some example_entity], 5)"
  by (simp add: state_view_def scanned_detector_fields page_at_def entities_at_def array_at_def
      entity_at_def)

text \<open>
  Claim C9 as stated fails: after a \<open>refresh\<close> of the example page, the array that
  \<open>getEntities\<close> returns (at address 8) refers to the entity object of the state itself (at
  address 3), and a write to that object's \<open>id\<close> shows in the state.
\<close>

theorem shared_entity_objects_leak:
  "fst (caller example_runtime [Host 5 Refresh, Call_getEntities]
          ([], createDetector example_runtime (example_config example_document))) = [8] \<and>
   3 \<in> set (reach (heap (snd (caller example_runtime [Host 5 Refresh, Call_getEntities]
          ([], createDetector example_runtime (example_config example_document))))) 8) \<and>
   fst (snd (state_view (snd (caller example_runtime [Host 5 Refresh, Call_getEntities]
          ([], createDetector example_runtime (example_config example_document))))))
     = Some [Some example_entity] \<and>
   fst (snd (state_view (snd (caller example_runtime
      [Host 5 Refresh, Call_getEntities,
       Caller_write (Write 3 (OEntity (example_entity\<lparr>ent_id := js ''scp-999''\<rparr>)))]
      ([], createDetector example_runtime (example_config example_document))))))
     = Some [Some (example_entity\<lparr>ent_id := js ''scp-999''\<rparr>)] \<and>
   example_entity\<lparr>ent_id := js ''scp-999''\<rparr> \<noteq> example_entity"
  by (simp add: refresh_scanned payloads_def example_detector getEntities_def
      scanned_detector_fields reach_def state_view_def
      entities_at_def array_at_def entity_at_def example_entity_def makeEntity_def js_def)

text \<open>
  Claim C9, amended, on the example page: after a \<open>refresh\<close> the caller takes the results,
  empties the returned array, overwrites the returned page, takes the entities again,
  writes to that second array and overwrites the results object.
\<close>

theorem returned_copies_are_private_witness:
  "fst (caller example_runtime [Host 5 Refresh, Call_getResults]
          ([], createDetector example_runtime (example_config example_document))) = [10, 8, 9] \<and>
   writes_returned example_runtime
     ([Host 5 Refresh, Call_getResults] @
      [Caller_write (Write 9 (OArray [])), Caller_write (Write 8 (OPage initial_page)),
       Call_getEntities, Caller_write (Write 11 (OArray [0])),
       Caller_write (Write 10 (OResults 0 1 0))])
     ([], createDetector example_runtime (example_config example_document)) \<and>
   list_all no_host
     [Caller_write (Write 9 (OArray [])), Caller_write (Write 8 (OPage initial_page)),
      Call_getEntities, Caller_write (Write 11 (OArray [0])),
      Caller_write (Write 10 (OResults 0 1 0))] \<and>
   state_view (snd (caller example_runtime
     [Caller_write (Write 9 (OArray [])), Caller_write (Write 8 (OPage initial_page)),
      Call_getEntities, Caller_write (Write 11 (OArray [0])),
      Caller_write (Write 10 (OResults 0 1 0))]
     (caller example_runtime [Host 5 Refresh, Call_getResults]
        ([], createDetector example_runtime (example_config example_document)))))
     = (Some (classifyPage (\<lambda>s. s) (Some example_url) (js ''Example'')),
        Some [Some example_entity], 5)"
proof -
  let ?init = "([], createDetector example_runtime (example_config example_document))"
  let ?steps = "[Host 5 Refresh, Call_getResults]"
  let ?calls = "[Caller_write (Write 9 (OArray [])), Caller_write (Write 8 (OPage initial_page)),
      Call_getEntities, Caller_write (Write 11 (OArray [0])),
      Caller_write (Write 10 (OResults 0 1 0))]"
  have st: "caller example_runtime ?steps ?init =
      ([10, 8, 9], scanned_detector\<lparr>heap := heap scanned_detector @
          [OPage (classifyPage (\<lambda>s. s) (Some example_url) (js ''Example'')), OArray [3],
           OResults 8 9 5]\<rparr>)"
    by (simp add: refresh_scanned payloads_def example_detector getResults_def
        getPageClassification_def getEntities_def scanned_detector_fields handed_out_def)
  have w: "writes_returned example_runtime (?steps @ ?calls) ?init"
    by (simp add: refresh_scanned payloads_def example_detector getResults_def
        getPageClassification_def getEntities_def scanned_detector_fields handed_out_def)
  have n: "list_all no_host ?calls" by simp
  have v: "state_view (snd (caller example_runtime ?steps ?init))
      = (Some (classifyPage (\<lambda>s. s) (Some example_url) (js ''Example'')),
         Some [Some example_entity], 5)"
    unfolding st
    by (simp add: state_view_def scanned_detector_fields page_at_def entities_at_def array_at_def
        entity_at_def)
  note t = returned_copies_are_private [where R = example_runtime and steps = ?steps
      and calls = ?calls and c = "example_config example_document", unfolded Let_def]
  from t w n have e: "state_view (snd (caller example_runtime ?calls (caller example_runtime ?steps ?init)))
      = state_view (snd (caller example_runtime ?steps ?init))"
    by blast
  show ?thesis
  proof (intro conjI)
    show "fst (caller example_runtime ?steps ?init) = [10, 8, 9]" by (simp only: st fst_conv)
    show "writes_returned example_runtime (?steps @ ?calls) ?init" by (rule w)
    show "list_all no_host ?calls" by (rule n)
    show "state_view (snd (caller example_runtime ?calls (caller example_runtime ?steps ?init)))
      = (Some (classifyPage (\<lambda>s. s) (Some example_url) (js ''Example'')),
         Some [Some example_entity], 5)"
      using e v by (rule trans)
  qed
qed

end
